theory Spec2Isabelle
  imports Complex_Main "HOL-Library.Multiset"
begin

section \<open>Python values, dictionaries and exceptions\<close>

text \<open>
  The two modules under verification are \<^verbatim>\<open>Inside_cave/genai.py\<close> (confidence scaling,
  the advisory summary and the conclusion rules) and \<^verbatim>\<open>Outer_surface/model/outer_surface.py\<close>
  (frame sampling, per-frame inference and collection of the results).

  Both work on untyped JSON-like data, so the values are a datatype of Python objects.
  A Python \<^verbatim>\<open>float\<close> is a finite IEEE double, carried as the real number it denotes:
  every arithmetic operation on floats rounds its exact result to the nearest double
  (\<open>to_double\<close> below) and overflows to infinity beyond the double range. A
  \<^verbatim>\<open>str\<close> is the list of its UTF-8 bytes, and a \<^verbatim>\<open>dict\<close> is an association list in
  insertion order, as Python iterates it.
\<close>

datatype pyval =
    PNone
  | PBool bool
  | PInt int
  | PFloat real
  | PStr string
  | PList "pyval list"
  | PDict "(string \<times> pyval) list"

type_synonym dict = "(string \<times> pyval) list"

text \<open>An exception is its class together with the text that \<^verbatim>\<open>str(e)\<close> gives for it
  (for a \<^verbatim>\<open>KeyError\<close> that text is the repr of the key, written out where it is
  raised).\<close>

datatype exn =
    KeyError string
  | TypeError string
  | ValueError string
  | ZeroDivisionError string
  | OverflowError string
  | RuntimeError string
  | CollaboratorError string

definition sq :: string where
  "sq = [CHR 0x27]"

fun exn_text :: "exn \<Rightarrow> string" where
  "exn_text (KeyError m) = m"
| "exn_text (TypeError m) = m"
| "exn_text (ValueError m) = m"
| "exn_text (ZeroDivisionError m) = m"
| "exn_text (OverflowError m) = m"
| "exn_text (RuntimeError m) = m"
| "exn_text (CollaboratorError m) = m"

fun type_name :: "pyval \<Rightarrow> string" where
  "type_name PNone = ''NoneType''"
| "type_name (PBool _) = ''bool''"
| "type_name (PInt _) = ''int''"
| "type_name (PFloat _) = ''float''"
| "type_name (PStr _) = ''str''"
| "type_name (PList _) = ''list''"
| "type_name (PDict _) = ''dict''"

text \<open>Truth value of an object, as \<^verbatim>\<open>not summary\<close> tests it.\<close>

fun truthy :: "pyval \<Rightarrow> bool" where
  "truthy PNone = False"
| "truthy (PBool b) = b"
| "truthy (PInt i) = (i \<noteq> 0)"
| "truthy (PFloat r) = (r \<noteq> 0)"
| "truthy (PStr s) = (s \<noteq> [])"
| "truthy (PList xs) = (xs \<noteq> [])"
| "truthy (PDict d) = (d \<noteq> [])"

text \<open>The numeric value of an object that supports ordering against a number
  (\<^verbatim>\<open>bool\<close> is a subclass of \<^verbatim>\<open>int\<close>); \<open>None\<close> where the comparison raises.\<close>

fun num_of :: "pyval \<Rightarrow> real option" where
  "num_of (PBool b) = Some (if b then 1 else 0)"
| "num_of (PInt i) = Some (of_int i)"
| "num_of (PFloat r) = Some r"
| "num_of _ = None"

text \<open>\<^verbatim>\<open>d.get(k, default)\<close> and \<^verbatim>\<open>d[k] = v\<close> (an existing key keeps its place, a new
  key goes last).\<close>

definition dict_get :: "(string \<times> 'v) list \<Rightarrow> string \<Rightarrow> 'v \<Rightarrow> 'v" where
  "dict_get d k dflt = (case map_of d k of None \<Rightarrow> dflt | Some v \<Rightarrow> v)"

fun dict_set :: "(string \<times> 'v) list \<Rightarrow> string \<Rightarrow> 'v \<Rightarrow> (string \<times> 'v) list" where
  "dict_set [] k v = [(k, v)]"
| "dict_set (p # ps) k v = (if fst p = k then (k, v) # ps else p # dict_set ps k v)"

text \<open>\<^verbatim>\<open>list(dict.fromkeys(xs))\<close>: the keys in first-insertion order.\<close>

definition dict_fromkeys :: "'a list \<Rightarrow> 'a list" where
  "dict_fromkeys xs = foldl (\<lambda>d k. if k \<in> set d then d else d @ [k]) [] xs"

text \<open>\<^verbatim>\<open>round(x)\<close> on a finite float rounds half to even; \<^verbatim>\<open>int(x)\<close> truncates
  towards zero. Both are exact on the double they are given.\<close>

definition py_round :: "real \<Rightarrow> int" where
  "py_round x =
     (let f = \<lfloor>x\<rfloor>; d = x - of_int f
      in if d < 1 / 2 then f
         else if 1 / 2 < d then f + 1
         else if even f then f else f + 1)"

definition py_int :: "real \<Rightarrow> int" where
  "py_int x = (if 0 \<le> x then \<lfloor>x\<rfloor> else \<lceil>x\<rceil>)"

subsection \<open>Double arithmetic\<close>

text \<open>
  \<open>binade n x\<close> is the exponent \<open>e\<close> with \<open>2 powi e \<le> x < 2 powi (e + 1)\<close> of a
  positive \<open>x\<close>, found by halving or doubling at most \<open>n\<close> times; the exponents of
  doubles lie between -1074 and 1023, so 1100 steps are enough. A double has 53
  significant bits and its exponent does not go below -1022 (below that the spacing of
  the doubles stays at 2 to the power -1074): \<open>to_double x\<close> is the multiple of the
  spacing at \<open>x\<close> that is nearest to \<open>x\<close>, a tie going to the even multiple. A result
  whose exact value reaches \<open>2 ^ 1024 - 2 ^ 970\<close> in magnitude is an infinity.
\<close>

fun binade :: "nat \<Rightarrow> real \<Rightarrow> int" where
  "binade 0 x = 0"
| "binade (Suc n) x =
     (if 2 \<le> x then binade n (x / 2) + 1
      else if x < 1 then binade n (x * 2) - 1
      else 0)"

definition dbl_exp :: "real \<Rightarrow> int" where
  "dbl_exp x = max (binade 1100 \<bar>x\<bar>) (- 1022)"

definition to_double :: "real \<Rightarrow> real" where
  "to_double x =
     (if x = 0 then 0
      else (let u = 2 powi (dbl_exp x - 52)
            in of_int (py_round (x / u)) * u))"

definition dbl_overflows :: "real \<Rightarrow> bool" where
  "dbl_overflows x = (2 ^ 1024 - 2 ^ 970 \<le> \<bar>x\<bar>)"

text \<open>The UTF-8 bytes of the cross mark that prefixes the failure messages.\<close>

definition cross_mark :: string where
  "cross_mark = [CHR 0xE2, CHR 0x9D, CHR 0x8C]"

section \<open>genai.py\<close>

subsection \<open>safe_json_loads\<close>

text \<open>
  \<^verbatim>\<open>str.strip()\<close> removes the white space of Unicode at both ends: the code points
  U+0009 to U+000D, U+001C to U+0020, U+0085, U+00A0, U+1680, U+2000 to U+200A, U+2028,
  U+2029, U+202F, U+205F and U+3000, here as their UTF-8 encodings.
  \<^verbatim>\<open>strip("`")\<close> removes backticks in the same way.
\<close>

definition whitespace :: "string list" where
  "whitespace =
     [[CHR 0x09], [CHR 0x0A], [CHR 0x0B], [CHR 0x0C], [CHR 0x0D],
      [CHR 0x1C], [CHR 0x1D], [CHR 0x1E], [CHR 0x1F], [CHR 0x20],
      [CHR 0xC2, CHR 0x85], [CHR 0xC2, CHR 0xA0],
      [CHR 0xE1, CHR 0x9A, CHR 0x80],
      [CHR 0xE2, CHR 0x80, CHR 0x80], [CHR 0xE2, CHR 0x80, CHR 0x81],
      [CHR 0xE2, CHR 0x80, CHR 0x82], [CHR 0xE2, CHR 0x80, CHR 0x83],
      [CHR 0xE2, CHR 0x80, CHR 0x84], [CHR 0xE2, CHR 0x80, CHR 0x85],
      [CHR 0xE2, CHR 0x80, CHR 0x86], [CHR 0xE2, CHR 0x80, CHR 0x87],
      [CHR 0xE2, CHR 0x80, CHR 0x88], [CHR 0xE2, CHR 0x80, CHR 0x89],
      [CHR 0xE2, CHR 0x80, CHR 0x8A],
      [CHR 0xE2, CHR 0x80, CHR 0xA8], [CHR 0xE2, CHR 0x80, CHR 0xA9],
      [CHR 0xE2, CHR 0x80, CHR 0xAF],
      [CHR 0xE2, CHR 0x81, CHR 0x9F],
      [CHR 0xE3, CHR 0x80, CHR 0x80]]"

function lstrip_seqs :: "string list \<Rightarrow> string \<Rightarrow> string" where
  "lstrip_seqs seqs s =
     (case find (\<lambda>w. w \<noteq> [] \<and> take (length w) s = w) seqs of
        None \<Rightarrow> s
      | Some w \<Rightarrow> lstrip_seqs seqs (drop (length w) s))"
  by pat_completeness auto
termination
proof (relation "measure (\<lambda>(seqs, s). length s)")
  show "wf (measure (\<lambda>(seqs, s :: string). length s))" by simp
next
  fix seqs :: "string list" and s w :: string
  assume "find (\<lambda>w. w \<noteq> [] \<and> take (length w) s = w) seqs = Some w"
  then have w: "w \<noteq> []" and t: "take (length w) s = w"
    by (auto simp: find_Some_iff)
  have "length w \<le> length s"
    using arg_cong [OF t, of length] by simp
  then show "((seqs, drop (length w) s), (seqs, s)) \<in> measure (\<lambda>(seqs, s). length s)"
    using w by (cases w) auto
qed

definition strip_seqs :: "string list \<Rightarrow> string \<Rightarrow> string" where
  "strip_seqs seqs s = rev (lstrip_seqs (map rev seqs) (rev (lstrip_seqs seqs s)))"

text \<open>\<^verbatim>\<open>lower()\<close> matters only for the comparison with \<^verbatim>\<open>"json"\<close>: the only code
  points whose lower case is one of these four letters are the ASCII letters themselves.\<close>

definition lower_char :: "char \<Rightarrow> char" where
  "lower_char c =
     (let n = (of_char c :: nat) in if 65 \<le> n \<and> n \<le> 90 then char_of (n + 32) else c)"

definition startswith :: "string \<Rightarrow> string \<Rightarrow> bool" where
  "startswith s p = (take (length p) s = p)"

text \<open>\<^verbatim>\<open>json.loads\<close> is the library's parser, a parameter here: it returns the parsed
  object or raises. Every exception inside \<^verbatim>\<open>safe_json_loads\<close> becomes \<^verbatim>\<open>None\<close>.\<close>

definition safe_json_loads :: "(string \<Rightarrow> exn + pyval) \<Rightarrow> string \<Rightarrow> pyval" where
  "safe_json_loads json_loads text =
     (let cleaned = strip_seqs whitespace text;
          cleaned = (if startswith cleaned ''```''
                     then (let c = strip_seqs [''`''] cleaned
                           in if startswith (map lower_char c) ''json''
                              then strip_seqs whitespace (drop 4 c) else c)
                     else cleaned)
      in case json_loads cleaned of Inl e \<Rightarrow> PNone | Inr v \<Rightarrow> v)"

subsection \<open>scale_confidence\<close>

text \<open>
  \<open>conf\<close> is a float (or the integer 0 of an empty prediction set, on which every step
  below is exact). The product \<^verbatim>\<open>conf * 100\<close> and each operation of the two middle
  branches round to a double. A product beyond the double range is an infinity: the
  positive one falls through every comparison to the last branch, the negative one takes
  the first branch and \<^verbatim>\<open>round\<close> raises on it.
\<close>

definition scale_confidence :: "real \<Rightarrow> exn + int" where
  "scale_confidence conf =
     (if dbl_overflows (conf * 100)
      then (if 0 < conf then Inr 98
            else Inl (OverflowError ''cannot convert float infinity to integer''))
      else
        (let actual = to_double (conf * 100);
             scaled =
               (if actual \<le> 40 then actual
                else if 40 < actual \<and> actual \<le> 55
                then to_double (40 + to_double (to_double (to_double (actual - 40) * (90 - 40))
                                                  / (55 - 40)))
                else if 55 < actual \<and> actual \<le> 60
                then to_double (90 + to_double (to_double (to_double (actual - 55) * (95 - 90))
                                                  / (60 - 55)))
                else 98)
         in Inr (py_round scaled)))"

subsection \<open>summarize_with_gemini\<close>

text \<open>
  The first loop walks every prediction of every frame. \<^verbatim>\<open>p['class']\<close> raises
  \<^verbatim>\<open>KeyError\<close> on a prediction without a class, and the format \<^verbatim>\<open>{conf:.2f}\<close> raises
  on a confidence that is not a number; both happen outside the \<^verbatim>\<open>try\<close>. The text
  of the prompt only reaches the collaborator, whose answer is a parameter of the model,
  so the model keeps the running \<^verbatim>\<open>highest_conf\<close> (as its numeric value) and the
  exceptions, and not the text. A confidence is a float, a bool or an integer of the
  double range.
\<close>

definition format_2f_error :: "pyval \<Rightarrow> exn" where
  "format_2f_error v =
     (case v of
        PStr _ \<Rightarrow> ValueError (''Unknown format code '' @ sq @ ''f'' @ sq
                               @ '' for object of type '' @ sq @ ''str'' @ sq)
      | _ \<Rightarrow> TypeError (''unsupported format string passed to '' @ type_name v @ ''.__format__''))"

definition scan_pred :: "real \<Rightarrow> dict \<Rightarrow> exn + real" where
  "scan_pred highest_conf p =
     (let conf = dict_get p ''confidence'' (PInt 0)
      in case map_of p ''class'' of
           None \<Rightarrow> Inl (KeyError (sq @ ''class'' @ sq))
         | Some _ \<Rightarrow>
             (case num_of conf of
                None \<Rightarrow> Inl (format_2f_error conf)
              | Some c \<Rightarrow> Inr (if c > highest_conf then c else highest_conf)))"

fun scan_preds :: "real \<Rightarrow> dict list \<Rightarrow> exn + real" where
  "scan_preds highest_conf [] = Inr highest_conf"
| "scan_preds highest_conf (p # ps) =
     (case scan_pred highest_conf p of
        Inl e \<Rightarrow> Inl e
      | Inr h \<Rightarrow> scan_preds h ps)"

fun scan_frames :: "real \<Rightarrow> (string \<times> dict list) list \<Rightarrow> exn + real" where
  "scan_frames highest_conf [] = Inr highest_conf"
| "scan_frames highest_conf ((frame, preds) # rest) =
     (case scan_preds highest_conf preds of
        Inl e \<Rightarrow> Inl e
      | Inr h \<Rightarrow> scan_frames h rest)"

text \<open>\<^verbatim>\<open>summary["confidence"] = ...\<close> on a parsed value that is not a dict raises
  \<^verbatim>\<open>TypeError\<close>.\<close>

definition setitem_error :: "pyval \<Rightarrow> exn" where
  "setitem_error v =
     (case v of
        PList _ \<Rightarrow> TypeError ''list indices must be integers or slices, not str''
      | _ \<Rightarrow> TypeError (sq @ type_name v @ sq @ '' object does not support item assignment''))"

text \<open>The body of the \<^verbatim>\<open>try\<close>. \<open>reply\<close> is what the chat call gave: the text of the
  answer, or the exception it raised. In the assignment to \<^verbatim>\<open>summary["confidence"]\<close>
  the right-hand side is evaluated first.\<close>

definition summarize_try :: "(string \<Rightarrow> exn + pyval) \<Rightarrow> exn + string \<Rightarrow> real \<Rightarrow> exn + dict" where
  "summarize_try json_loads reply highest_conf =
     (case reply of
        Inl e \<Rightarrow> Inl e
      | Inr resp_text \<Rightarrow>
          (let text = strip_seqs whitespace resp_text;
               summary = safe_json_loads json_loads text
           in if \<not> truthy summary then Inl (ValueError ''Gemini returned invalid JSON'')
              else (case scale_confidence highest_conf of
                      Inl e \<Rightarrow> Inl e
                    | Inr scaled \<Rightarrow>
                        (case summary of
                           PDict d \<Rightarrow> Inr (dict_set d ''confidence'' (PInt scaled))
                         | _ \<Rightarrow> Inl (setitem_error summary)))))"

text \<open>An exception of the \<^verbatim>\<open>try\<close> body is caught and the default summary is built;
  an exception while building it leaves the function.\<close>

definition summarize_with_gemini ::
    "(string \<Rightarrow> exn + pyval) \<Rightarrow> exn + string \<Rightarrow> (string \<times> dict list) list \<Rightarrow> exn + dict" where
  "summarize_with_gemini json_loads reply predictions =
     (case scan_frames 0 predictions of
        Inl e \<Rightarrow> Inl e
      | Inr highest_conf \<Rightarrow>
          (case summarize_try json_loads reply highest_conf of
             Inr summary \<Rightarrow> Inr summary
           | Inl e \<Rightarrow>
               (case scale_confidence highest_conf of
                  Inl e' \<Rightarrow> Inl e'
                | Inr scaled \<Rightarrow>
                    Inr [(''riskLevel'', PStr ''Unknown''),
                         (''confidence'', PInt scaled),
                         (''rockSize'', PStr ''Unknown''),
                         (''trajectory'', PStr ''Unknown''),
                         (''recommendations'',
                            PList [PStr (cross_mark @ '' Gemini failed: '' @ exn_text e)])])))"

subsection \<open>conclusion_analysis\<close>

definition compare_error :: "string \<Rightarrow> pyval \<Rightarrow> string \<Rightarrow> exn" where
  "compare_error opr v other =
     TypeError (sq @ opr @ sq @ '' not supported between instances of ''
                @ sq @ type_name v @ sq @ '' and '' @ sq @ other @ sq)"

definition conclusion_analysis :: "dict \<Rightarrow> exn + dict" where
  "conclusion_analysis analysis =
     (let conf = dict_get analysis ''confidence'' (PInt 0);
          rock_size = dict_get analysis ''rockSize'' (PStr ''Unknown'');
          trajectory = dict_get analysis ''trajectory'' (PStr ''Unknown'')
      in case num_of conf of
           None \<Rightarrow> Inl (compare_error ''<='' conf ''int'')
         | Some c \<Rightarrow>
             (let risk = (if c \<le> 40 then ''Low''
                          else if c \<le> 60 then ''Medium''
                          else if c \<le> 75 then ''High''
                          else ''Very High'');
                  trajectory = (if trajectory = PStr ''Unknown''
                                then (if c > 70 then PStr ''Unstable''
                                      else if c > 50 then PStr ''Moderate''
                                      else PStr ''Stable'')
                                else trajectory);
                  rock_size = (if rock_size = PStr ''Unknown''
                               then (if c > 75 then PStr ''Large''
                                     else if c > 50 then PStr ''Medium''
                                     else PStr ''Small'')
                               else rock_size);
                  recommendations =
                    (if risk \<in> set [''Low'', ''Medium'']
                     then [''Continue monitoring'']
                          @ (if rock_size \<in> set [PStr ''Medium'', PStr ''Large'']
                             then [''Schedule inspection''] else [])
                     else if risk \<in> set [''High'', ''Very High'']
                     then [''Immediate inspection'', ''Evacuate personnel if necessary'']
                          @ (if trajectory = PStr ''Unstable''
                             then [''Reinforce support structures''] else [])
                     else []);
                  recommendations = dict_fromkeys recommendations
              in Inr [(''riskLevel'', PStr risk),
                      (''confidence'', conf),
                      (''trajectory'', trajectory),
                      (''rockSize'', rock_size),
                      (''recommendations'', PList (map PStr recommendations))]))"

subsection \<open>process_video_and_summarize\<close>

text \<open>\<^verbatim>\<open>process_video_file\<close> lives in a module that is not part of the sources at hand;
  its outcome (the predictions of every frame, or the exception it raised) is the
  parameter \<open>video\<close>.\<close>

definition process_video_and_summarize ::
    "exn + (string \<times> dict list) list \<Rightarrow> (string \<Rightarrow> exn + pyval) \<Rightarrow> exn + string \<Rightarrow> exn + dict" where
  "process_video_and_summarize video json_loads reply =
     (case video of
        Inl e \<Rightarrow>
          Inr [(''success'', PBool False),
               (''error'', PStr (cross_mark @ '' Video processing failed: '' @ exn_text e))]
      | Inr all_predictions \<Rightarrow>
          (case summarize_with_gemini json_loads reply all_predictions of
             Inl e \<Rightarrow> Inl e
           | Inr summary \<Rightarrow>
               (let analysis =
                      [(''riskLevel'', dict_get summary ''riskLevel'' (PStr ''Unknown'')),
                       (''confidence'', dict_get summary ''confidence'' (PInt 0)),
                       (''trajectory'', dict_get summary ''trajectory'' (PStr ''Unknown'')),
                       (''rockSize'', dict_get summary ''rockSize'' (PStr ''Unknown'')),
                       (''recommendations'',
                          dict_get summary ''recommendations''
                            (PList [PStr ''Continue monitoring'', PStr ''Schedule inspection'']))]
                in case conclusion_analysis analysis of
                     Inl e \<Rightarrow> Inl e
                   | Inr final_analysis \<Rightarrow>
                       Inr [(''success'', PBool True), (''analysis'', PDict final_analysis)])))"

section \<open>outer_surface.py\<close>

subsection \<open>Frame identifiers\<close>

text \<open>\<^verbatim>\<open>f"frame_{frame_id}"\<close>: the decimal digits of the frame number after a fixed prefix.\<close>

definition digit_char :: "nat \<Rightarrow> char" where
  "digit_char d = char_of (48 + d)"

fun str_nat :: "nat \<Rightarrow> string" where
  "str_nat n = (if n < 10 then [digit_char n] else str_nat (n div 10) @ [digit_char (n mod 10)])"

definition frame_key :: "nat \<Rightarrow> string" where
  "frame_key frame_id = ''frame_'' @ str_nat frame_id"

subsection \<open>process_frame\<close>

text \<open>
  \<open>gateway\<close> stands for the call \<^verbatim>\<open>client.run_workflow\<close> on the frame's image together
  with the selection \<^verbatim>\<open>result[0]["model_predictions"]["predictions"]\<close>: it gives the list
  of raw predictions, or the exception raised on the way. The \<^verbatim>\<open>try\<close> has a
  \<^verbatim>\<open>finally\<close> (it removes the temporary image) and no \<^verbatim>\<open>except\<close>: an exception
  leaves \<^verbatim>\<open>process_frame\<close> as it is. The temporary file is not part of the model.
\<close>

fun clean_predictions :: "real \<Rightarrow> dict list \<Rightarrow> exn + dict list" where
  "clean_predictions conf_threshold [] = Inr []"
| "clean_predictions conf_threshold (pred # rest) =
     (let conf = dict_get pred ''confidence'' (PInt 0)
      in case num_of conf of
           None \<Rightarrow> Inl (compare_error ''>='' conf ''float'')
         | Some c \<Rightarrow>
             (case clean_predictions conf_threshold rest of
                Inl e \<Rightarrow> Inl e
              | Inr cleaned \<Rightarrow>
                  Inr (if c \<ge> conf_threshold
                       then filter (\<lambda>(k, v). k \<noteq> ''points'') pred # cleaned
                       else cleaned)))"

definition process_frame ::
    "('f \<Rightarrow> exn + dict list) \<Rightarrow> real \<Rightarrow> nat \<Rightarrow> 'f \<Rightarrow> exn + nat \<times> dict list" where
  "process_frame gateway conf_threshold frame_id frame =
     (case gateway frame of
        Inl e \<Rightarrow> Inl e
      | Inr preds \<Rightarrow>
          (case clean_predictions conf_threshold preds of
             Inl e \<Rightarrow> Inl e
           | Inr cleaned_predictions \<Rightarrow> Inr (frame_id, cleaned_predictions)))"

subsection \<open>process_video\<close>

text \<open>
  The \<^verbatim>\<open>while True\<close> loop over the decoded frames: \<open>frames\<close> are the frames that
  \<^verbatim>\<open>cap.read()\<close> still delivers. A submitted task is the pair of its frame number and
  its frame. \<^verbatim>\<open>frame_count % frame_interval\<close> raises when the interval is zero.
\<close>

fun read_loop :: "int \<Rightarrow> 'f list \<Rightarrow> nat \<Rightarrow> nat \<Rightarrow> (nat \<times> 'f) list \<Rightarrow> exn + (nat \<times> 'f) list" where
  "read_loop frame_interval [] frame_count saved_frame_count futures = Inr futures"
| "read_loop frame_interval (frame # rest) frame_count saved_frame_count futures =
     (if frame_interval = 0 then Inl (ZeroDivisionError ''integer modulo by zero'')
      else if int frame_count mod frame_interval = 0
      then read_loop frame_interval rest (frame_count + 1) (saved_frame_count + 1)
             (futures @ [(saved_frame_count, frame)])
      else read_loop frame_interval rest (frame_count + 1) saved_frame_count futures)"

text \<open>
  The loop over \<^verbatim>\<open>as_completed(futures)\<close>: the tasks arrive in the order in which they
  finish, \<^verbatim>\<open>future.result()\<close> re-raises the exception of a failed task, and each result
  is stored under its frame's key.
\<close>

fun collect ::
    "('f \<Rightarrow> exn + dict list) \<Rightarrow> real \<Rightarrow> (nat \<times> 'f) list \<Rightarrow> (string \<times> dict list) list
      \<Rightarrow> exn + (string \<times> dict list) list" where
  "collect gateway conf_threshold [] all_predictions = Inr all_predictions"
| "collect gateway conf_threshold ((fid, frame) # rest) all_predictions =
     (case process_frame gateway conf_threshold fid frame of
        Inl e \<Rightarrow> Inl e
      | Inr (frame_id, predictions) \<Rightarrow>
          collect gateway conf_threshold rest
            (dict_set all_predictions (frame_key frame_id) predictions))"

text \<open>\<^verbatim>\<open>frame_interval = int(fps * interval_sec)\<close>: \<open>fps\<close> and \<open>interval_sec\<close> are
  floats (the default interval 2 is the double 2.0), their product is rounded to a double
  and truncated; \<^verbatim>\<open>int\<close> raises on an infinite product.\<close>

definition frame_interval :: "real \<Rightarrow> real \<Rightarrow> exn + int" where
  "frame_interval fps interval_sec =
     (if dbl_overflows (fps * interval_sec)
      then Inl (OverflowError ''cannot convert float infinity to integer'')
      else Inr (py_int (to_double (fps * interval_sec))))"

text \<open>
  \<open>opened\<close> is \<^verbatim>\<open>cap.isOpened()\<close>, \<open>fps\<close> the frame rate the capture reports, and
  \<open>as_completed\<close> the order in which the pool finishes the submitted tasks (a
  rearrangement of them). Writing the JSON file and the console output are not modelled.
\<close>

definition process_video ::
    "bool \<Rightarrow> real \<Rightarrow> 'f list \<Rightarrow> ('f \<Rightarrow> exn + dict list) \<Rightarrow> real \<Rightarrow> real
      \<Rightarrow> ((nat \<times> 'f) list \<Rightarrow> (nat \<times> 'f) list) \<Rightarrow> exn + (string \<times> dict list) list" where
  "process_video opened fps frames gateway conf_threshold interval_sec as_completed =
     (if \<not> opened then Inl (RuntimeError (cross_mark @ '' Error: Cannot open video''))
      else (case frame_interval fps interval_sec of
              Inl e \<Rightarrow> Inl e
            | Inr stride \<Rightarrow>
                (case read_loop stride frames 0 0 [] of
                   Inl e \<Rightarrow> Inl e
                 | Inr futures \<Rightarrow> collect gateway conf_threshold (as_completed futures) [])))"

section \<open>Notions of the specification\<close>

text \<open>The table of the confidence normaliser as the specification words it, on the
  percentage \<open>actual = raw \<times> 100\<close>, before rounding.\<close>

definition spec_normalize_table :: "real \<Rightarrow> real" where
  "spec_normalize_table actual =
     (if actual \<le> 40 then actual
      else if actual \<le> 55 then 40 + (actual - 40) * 50 / 15
      else if actual \<le> 60 then 90 + (actual - 55)
      else 98)"

text \<open>The two middle branches of \<open>scale_confidence\<close> and its whole case distinction, as
  functions of the percentage \<open>actual\<close> that the code has computed.\<close>

definition second_piece :: "real \<Rightarrow> real" where
  "second_piece actual = to_double (40 + to_double (to_double (to_double (actual - 40) * 50) / 15))"

definition third_piece :: "real \<Rightarrow> real" where
  "third_piece actual = to_double (90 + to_double (to_double (to_double (actual - 55) * 5) / 5))"

definition scaled_of :: "real \<Rightarrow> real" where
  "scaled_of actual =
     (if actual \<le> 40 then actual
      else if actual \<le> 55 then second_piece actual
      else if actual \<le> 60 then third_piece actual
      else 98)"

text \<open>The raw confidences of all detections of a prediction set (a detection without
  the entry counts as 0, as \<^verbatim>\<open>p.get("confidence", 0)\<close> reads it), and the highest of
  them as the specification defines it: 0 when there is no detection.\<close>

definition conf_value :: "dict \<Rightarrow> real" where
  "conf_value p = (case num_of (dict_get p ''confidence'' (PInt 0)) of None \<Rightarrow> 0 | Some c \<Rightarrow> c)"

definition raw_confidences :: "(string \<times> dict list) list \<Rightarrow> real list" where
  "raw_confidences predictions = map conf_value (concat (map snd predictions))"

definition spec_highest_raw :: "real list \<Rightarrow> real" where
  "spec_highest_raw cs = (if cs = [] then 0 else Max (set cs))"

text \<open>The default summary that the \<^verbatim>\<open>except\<close> branch of \<open>summarize_with_gemini\<close>
  builds, for a scaled confidence and the text of the exception.\<close>

definition default_seed :: "int \<Rightarrow> string \<Rightarrow> dict" where
  "default_seed scaled msg =
     [(''riskLevel'', PStr ''Unknown''),
      (''confidence'', PInt scaled),
      (''rockSize'', PStr ''Unknown''),
      (''trajectory'', PStr ''Unknown''),
      (''recommendations'', PList [PStr (cross_mark @ '' Gemini failed: '' @ msg)])]"

text \<open>Detections as the data model has them: each has a class and a numeric confidence.\<close>

definition well_formed :: "(string \<times> dict list) list \<Rightarrow> bool" where
  "well_formed predictions =
     list_all (\<lambda>p. map_of p ''class'' \<noteq> None \<and> num_of (dict_get p ''confidence'' (PInt 0)) \<noteq> None)
       (concat (map snd predictions))"

section \<open>Rounding\<close>

lemma py_round_mono: "x \<le> y \<Longrightarrow> py_round x \<le> py_round y"
proof -
  assume xy: "x \<le> y"
  have fl: "\<lfloor>x\<rfloor> \<le> \<lfloor>y\<rfloor>" using xy by (rule floor_mono)
  show ?thesis
  proof (cases "\<lfloor>x\<rfloor> = \<lfloor>y\<rfloor>")
    case True
    then show ?thesis using xy by (auto simp: py_round_def Let_def)
  next
    case False
    then have "\<lfloor>x\<rfloor> + 1 \<le> \<lfloor>y\<rfloor>" using fl by linarith
    moreover have "py_round x \<le> \<lfloor>x\<rfloor> + 1" by (simp add: py_round_def Let_def)
    moreover have "\<lfloor>y\<rfloor> \<le> py_round y" by (simp add: py_round_def Let_def)
    ultimately show ?thesis by linarith
  qed
qed

lemma py_round_nearest: "\<bar>of_int (py_round x) - x\<bar> \<le> 1 / 2"
  unfolding py_round_def Let_def by (auto; linarith)

lemma py_round_of_int: "py_round (of_int n) = n"
  by (simp add: py_round_def)

lemma py_round_nonneg: "0 \<le> x \<Longrightarrow> 0 \<le> py_round x"
  using py_round_mono [of 0 x] by (simp add: py_round_def)

lemma py_int_trunc:
  "0 \<le> x \<Longrightarrow> of_int (py_int x) \<le> x \<and> x < of_int (py_int x) + 1"
  unfolding py_int_def by (simp; linarith)

section \<open>Double arithmetic\<close>

lemma binade_eq:
  "2 powi e \<le> x \<Longrightarrow> x < 2 powi (e + 1) \<Longrightarrow> binade n x = max (- int n) (min (int n) e)"
proof (induction n arbitrary: x e)
  case 0
  then show ?case by simp
next
  case (Suc n)
  consider "1 \<le> e" | "e = 0" | "e \<le> - 1" by linarith
  then show ?case
  proof cases
    case 1
    have "(2::real) powi 1 \<le> 2 powi e" using 1 by (intro power_int_increasing) simp_all
    then have x2: "2 \<le> x" using Suc.prems(1) by simp
    have a: "2 powi (e - 1) \<le> x / 2" using Suc.prems(1) by (simp add: power_int_diff)
    have b: "x / 2 < 2 powi (e - 1 + 1)" using Suc.prems(2) by (simp add: power_int_add)
    have "binade n (x / 2) = max (- int n) (min (int n) (e - 1))" by (rule Suc.IH [OF a b])
    then show ?thesis using x2 1 by simp
  next
    case 2
    then show ?thesis using Suc.prems by simp
  next
    case 3
    have "(2::real) powi (e + 1) \<le> 2 powi 0" using 3 by (intro power_int_increasing) simp_all
    then have x1: "x < 1" using Suc.prems(2) by simp
    have a: "2 powi (e + 1) \<le> x * 2" using Suc.prems(1) by (simp add: power_int_add)
    have b: "x * 2 < 2 powi (e + 1 + 1)" using Suc.prems(2) by (simp add: power_int_add)
    have "binade n (x * 2) = max (- int n) (min (int n) (e + 1))" by (rule Suc.IH [OF a b])
    then show ?thesis using x1 3 by simp
  qed
qed

lemma binade_exists:
  assumes "0 < x"
  shows "2 powi \<lfloor>log 2 x\<rfloor> \<le> x \<and> x < 2 powi (\<lfloor>log 2 x\<rfloor> + 1)"
proof -
  have "2 powr of_int \<lfloor>log 2 x\<rfloor> \<le> 2 powr log 2 x"
    by (intro powr_mono) simp_all
  moreover have "2 powr log 2 x < 2 powr of_int (\<lfloor>log 2 x\<rfloor> + 1)"
    by (intro powr_less_mono) simp_all
  moreover have "2 powr log 2 x = x" using assms by simp
  ultimately show ?thesis by (simp add: powr_real_of_int' del: of_int_add)
qed

lemma to_double_unfold:
  "x \<noteq> 0 \<Longrightarrow> to_double x = of_int (py_round (x / 2 powi (dbl_exp x - 52))) * 2 powi (dbl_exp x - 52)"
  by (simp add: to_double_def Let_def)

lemma to_double_zero: "to_double 0 = 0"
  by (simp add: to_double_def)

lemma dbl_exp_eq:
  assumes "2 powi e \<le> \<bar>x\<bar>" and "\<bar>x\<bar> < 2 powi (e + 1)"
  shows "dbl_exp x = max (- 1022) (min 1100 e)"
  using binade_eq [OF assms, of 1100] by (simp add: dbl_exp_def)

text \<open>The rule by which a rounding is computed, once the exponent is known.\<close>

lemma to_double_eval:
  assumes "2 powi e \<le> \<bar>x\<bar>" and "\<bar>x\<bar> < 2 powi (e + 1)" and "- 1022 \<le> e" and "e \<le> 1100"
  shows "to_double x = of_int (py_round (x / 2 powi (e - 52))) * 2 powi (e - 52)"
proof -
  have "x \<noteq> 0"
  proof
    assume "x = 0"
    then have "2 powi e \<le> (0::real)" using assms(1) by simp
    moreover have "(0::real) < 2 powi e" by simp
    ultimately show False by linarith
  qed
  moreover have "dbl_exp x = e" using dbl_exp_eq [OF assms(1,2)] assms(3,4) by simp
  ultimately show ?thesis by (simp add: to_double_unfold)
qed

lemma to_double_nonneg: "0 \<le> x \<Longrightarrow> 0 \<le> to_double x"
  by (cases "x = 0") (simp_all add: to_double_def Let_def py_round_nonneg)

lemma powi_split53: "(2::real) powi (E + 1) = of_int (2 ^ 53) * 2 powi (E - 52)"
proof -
  have "(2::real) powi (E + 1) = 2 powi (53 + (E - 52))"
    by (rule arg_cong [where f = "\<lambda>k. 2 powi k"]) simp
  also have "\<dots> = 2 powi 53 * 2 powi (E - 52)" by (rule power_int_add) simp
  also have "(2::real) powi 53 = of_int (2 ^ 53)" by simp
  finally show ?thesis .
qed

lemma powi_split52: "(2::real) powi E = of_int (2 ^ 52) * 2 powi (E - 52)"
proof -
  have "(2::real) powi E = 2 powi (52 + (E - 52))"
    by (rule arg_cong [where f = "\<lambda>k. 2 powi k"]) simp
  also have "\<dots> = 2 powi 52 * 2 powi (E - 52)" by (rule power_int_add) simp
  also have "(2::real) powi 52 = of_int (2 ^ 52)" by simp
  finally show ?thesis .
qed

lemma to_double_mono:
  assumes "0 \<le> x" and "x \<le> y"
  shows "to_double x \<le> to_double y"
proof (cases "x = 0")
  case True
  then show ?thesis using to_double_nonneg [of y] assms by (simp add: to_double_def)
next
  case False
  then have x: "0 < x" and y: "0 < y" using assms by simp_all
  define ex where "ex = \<lfloor>log 2 x\<rfloor>"
  define ey where "ey = \<lfloor>log 2 y\<rfloor>"
  have bx: "2 powi ex \<le> x" "x < 2 powi (ex + 1)" using binade_exists [OF x] by (simp_all add: ex_def)
  have by': "2 powi ey \<le> y" "y < 2 powi (ey + 1)" using binade_exists [OF y] by (simp_all add: ey_def)
  have exy: "ex \<le> ey" unfolding ex_def ey_def using x assms(2) by (intro floor_mono) simp
  define Ex where "Ex = max (- 1022) (min 1100 ex)"
  define Ey where "Ey = max (- 1022) (min 1100 ey)"
  have dx: "dbl_exp x = Ex" using dbl_exp_eq [of ex x] bx x by (simp add: Ex_def)
  have dy: "dbl_exp y = Ey" using dbl_exp_eq [of ey y] by' y by (simp add: Ey_def)
  have fx: "to_double x = of_int (py_round (x / 2 powi (Ex - 52))) * 2 powi (Ex - 52)"
    using to_double_unfold [of x] x dx by simp
  have fy: "to_double y = of_int (py_round (y / 2 powi (Ey - 52))) * 2 powi (Ey - 52)"
    using to_double_unfold [of y] y dy by simp
  have Exy: "Ex \<le> Ey" using exy by (simp add: Ex_def Ey_def)
  show ?thesis
  proof (cases "Ex = Ey")
    case True
    have "x / 2 powi (Ey - 52) \<le> y / 2 powi (Ey - 52)"
      using assms(2) by (simp add: divide_right_mono)
    then have "py_round (x / 2 powi (Ey - 52)) \<le> py_round (y / 2 powi (Ey - 52))"
      by (rule py_round_mono)
    then show ?thesis unfolding fx fy True
      by (intro mult_right_mono) simp_all
  next
    case False
    then have lt: "Ex < Ey" using Exy by simp
    have exE: "ex \<le> Ex" using lt unfolding Ex_def Ey_def by linarith
    have Eey: "Ey \<le> ey" using lt unfolding Ex_def Ey_def by linarith
    have ux: "x \<le> 2 powi (Ex + 1)"
    proof -
      have "(2::real) powi (ex + 1) \<le> 2 powi (Ex + 1)" using exE by (intro power_int_increasing) simp_all
      then show ?thesis using bx(2) by simp
    qed
    have ly: "2 powi Ey \<le> y"
    proof -
      have "(2::real) powi Ey \<le> 2 powi ey" using Eey by (intro power_int_increasing) simp_all
      then show ?thesis using by'(1) by simp
    qed
    define ux' where "ux' = (2::real) powi (Ex - 52)"
    define uy where "uy = (2::real) powi (Ey - 52)"
    have ux'pos: "0 < ux'" and uypos: "0 < uy" by (simp_all add: ux'_def uy_def)
    have "x \<le> of_int (2 ^ 53) * ux'" using ux powi_split53 [of Ex] by (simp only: ux'_def)
    then have "x / ux' \<le> of_int (2 ^ 53)" using ux'pos by (simp only: pos_divide_le_eq)
    then have "py_round (x / ux') \<le> py_round (of_int (2 ^ 53))" by (rule py_round_mono)
    then have "py_round (x / ux') \<le> 2 ^ 53" by (simp only: py_round_of_int)
    then have "real_of_int (py_round (x / ux')) \<le> of_int (2 ^ 53)" by (simp only: of_int_le_iff)
    then have "real_of_int (py_round (x / ux')) * ux' \<le> of_int (2 ^ 53) * ux'"
      using ux'pos by (intro mult_right_mono) simp_all
    then have "to_double x \<le> 2 powi (Ex + 1)"
      unfolding fx using powi_split53 [of Ex] by (simp only: ux'_def)
    also have "(2::real) powi (Ex + 1) \<le> 2 powi Ey" using lt by (intro power_int_increasing) simp_all
    finally have a: "to_double x \<le> 2 powi Ey" .
    have "of_int (2 ^ 52) * uy \<le> y" using ly powi_split52 [of Ey] by (simp only: uy_def)
    then have "of_int (2 ^ 52) \<le> y / uy" using uypos by (simp only: pos_le_divide_eq)
    then have "py_round (of_int (2 ^ 52)) \<le> py_round (y / uy)" by (rule py_round_mono)
    then have "2 ^ 52 \<le> py_round (y / uy)" by (simp only: py_round_of_int)
    then have "of_int (2 ^ 52) \<le> real_of_int (py_round (y / uy))" by (simp only: of_int_le_iff)
    then have "of_int (2 ^ 52) * uy \<le> real_of_int (py_round (y / uy)) * uy"
      using uypos by (intro mult_right_mono) simp_all
    then have "2 powi Ey \<le> to_double y"
      unfolding fy using powi_split52 [of Ey] by (simp only: uy_def)
    then show ?thesis using a by simp
  qed
qed

text \<open>The rounding error of a value below \<open>2 powi k\<close> is at most half the spacing there.\<close>

lemma to_double_error:
  assumes "\<bar>x\<bar> < 2 powi k" and "- 1021 \<le> k"
  shows "\<bar>to_double x - x\<bar> \<le> 2 powi (k - 54)"
proof (cases "x = 0")
  case True
  then show ?thesis by (simp add: to_double_zero)
next
  case False
  then have ax: "0 < \<bar>x\<bar>" by simp
  define e where "e = \<lfloor>log 2 \<bar>x\<bar>\<rfloor>"
  have b: "2 powi e \<le> \<bar>x\<bar>" "\<bar>x\<bar> < 2 powi (e + 1)"
    using binade_exists [OF ax] by (simp_all add: e_def)
  define E where "E = max (- 1022) (min 1100 e)"
  have d: "dbl_exp x = E" using dbl_exp_eq [OF b] by (simp add: E_def)
  have "(2::real) powi e < 2 powi k" using b(1) assms(1) by linarith
  then have "e < k"
  proof (rule contrapos_pp)
    assume "\<not> e < k"
    then have "(2::real) powi k \<le> 2 powi e" by (intro power_int_increasing) simp_all
    then show "\<not> (2::real) powi e < 2 powi k" by simp
  qed
  then have Ek: "E \<le> k - 1" using assms(2) unfolding E_def by linarith
  define u where "u = (2::real) powi (E - 52)"
  have upos: "0 < u" by (simp add: u_def)
  have f: "to_double x = of_int (py_round (x / u)) * u"
    using to_double_unfold [OF False] d by (simp add: u_def)
  have "to_double x - x = (of_int (py_round (x / u)) - x / u) * u"
    unfolding f using upos by (simp add: algebra_simps)
  then have "\<bar>to_double x - x\<bar> = \<bar>of_int (py_round (x / u)) - x / u\<bar> * u"
    using upos by (simp add: abs_mult)
  also have "\<dots> \<le> 1 / 2 * u"
    using py_round_nearest [of "x / u"] upos by (intro mult_right_mono) simp_all
  also have "1 / 2 * u = 2 powi (E - 53)"
  proof -
    have "(2::real) powi (E - 52) = 2 powi (1 + (E - 53))"
      by (rule arg_cong [where f = "\<lambda>k. 2 powi k"]) simp
    also have "\<dots> = 2 powi 1 * 2 powi (E - 53)" by (rule power_int_add) simp
    finally show ?thesis by (simp add: u_def)
  qed
  also have "\<dots> \<le> 2 powi (k - 54)" using Ek by (intro power_int_increasing) simp_all
  finally show ?thesis .
qed

section \<open>The confidence scale\<close>

lemma to_double_error_nat:
  assumes "\<bar>x\<bar> < 2 ^ k"
  shows "\<bar>to_double x - x\<bar> \<le> 2 ^ k / 2 ^ 54"
proof -
  have "\<bar>x\<bar> < 2 powi (int k)" using assms by simp
  then have "\<bar>to_double x - x\<bar> \<le> 2 powi (int k - 54)" by (rule to_double_error) simp
  also have "(2::real) powi (int k - 54) = 2 powi (int k) / 2 powi 54"
    by (rule power_int_diff) simp
  finally show ?thesis by simp
qed

lemma to_double_small_int:
  "to_double 5 = 5" "to_double 15 = 15" "to_double 25 = 25" "to_double 40 = 40"
  "to_double 50 = 50" "to_double 90 = 90" "to_double 95 = 95" "to_double 100 = 100"
  "to_double 750 = 750"
  using to_double_eval [of 2 5] to_double_eval [of 3 15] to_double_eval [of 4 25]
        to_double_eval [of 5 40] to_double_eval [of 5 50] to_double_eval [of 6 90]
        to_double_eval [of 6 95] to_double_eval [of 6 100] to_double_eval [of 9 750]
  by (simp_all add: py_round_def)

lemma scale_confidence_scaled_of:
  "\<not> dbl_overflows (conf * 100) \<Longrightarrow>
     scale_confidence conf = Inr (py_round (scaled_of (to_double (conf * 100))))"
  by (simp add: scale_confidence_def scaled_of_def second_piece_def third_piece_def Let_def)

lemma second_piece_mono:
  assumes "40 \<le> a" and "a \<le> b"
  shows "second_piece a \<le> second_piece b"
proof -
  have 1: "to_double (a - 40) \<le> to_double (b - 40)"
    using assms by (intro to_double_mono) simp_all
  have 0: "0 \<le> to_double (a - 40)" using assms by (intro to_double_nonneg) simp
  have 2: "to_double (to_double (a - 40) * 50) \<le> to_double (to_double (b - 40) * 50)"
    using 0 1 by (intro to_double_mono) simp_all
  have 20: "0 \<le> to_double (to_double (a - 40) * 50)" using 0 by (intro to_double_nonneg) simp
  have 3: "to_double (to_double (to_double (a - 40) * 50) / 15)
         \<le> to_double (to_double (to_double (b - 40) * 50) / 15)"
    using 20 2 by (intro to_double_mono) simp_all
  have 30: "0 \<le> to_double (to_double (to_double (a - 40) * 50) / 15)"
    using 20 by (intro to_double_nonneg) simp
  show ?thesis unfolding second_piece_def
    using 30 3 by (intro to_double_mono) simp_all
qed

lemma third_piece_mono:
  assumes "55 \<le> a" and "a \<le> b"
  shows "third_piece a \<le> third_piece b"
proof -
  have 1: "to_double (a - 55) \<le> to_double (b - 55)"
    using assms by (intro to_double_mono) simp_all
  have 0: "0 \<le> to_double (a - 55)" using assms by (intro to_double_nonneg) simp
  have 2: "to_double (to_double (a - 55) * 5) \<le> to_double (to_double (b - 55) * 5)"
    using 0 1 by (intro to_double_mono) simp_all
  have 20: "0 \<le> to_double (to_double (a - 55) * 5)" using 0 by (intro to_double_nonneg) simp
  have 3: "to_double (to_double (to_double (a - 55) * 5) / 5)
         \<le> to_double (to_double (to_double (b - 55) * 5) / 5)"
    using 20 2 by (intro to_double_mono) simp_all
  have 30: "0 \<le> to_double (to_double (to_double (a - 55) * 5) / 5)"
    using 20 by (intro to_double_nonneg) simp
  show ?thesis unfolding third_piece_def
    using 30 3 by (intro to_double_mono) simp_all
qed

lemma piece_ends:
  "second_piece 40 = 40" "second_piece 55 = 90" "third_piece 55 = 90" "third_piece 60 = 95"
  by (simp_all add: second_piece_def third_piece_def to_double_zero to_double_small_int)

lemma second_piece_range: "40 \<le> a \<Longrightarrow> a \<le> 55 \<Longrightarrow> 40 \<le> second_piece a \<and> second_piece a \<le> 90"
  using second_piece_mono [of 40 a] second_piece_mono [of a 55] by (simp add: piece_ends)

lemma third_piece_range: "55 \<le> a \<Longrightarrow> a \<le> 60 \<Longrightarrow> 90 \<le> third_piece a \<and> third_piece a \<le> 95"
  using third_piece_mono [of 55 a] third_piece_mono [of a 60] by (simp add: piece_ends)

lemma scaled_of_mono:
  assumes "a \<le> b"
  shows "scaled_of a \<le> scaled_of b"
proof -
  consider "b \<le> 40" | "a \<le> 40" "40 < b" "b \<le> 55" | "a \<le> 40" "55 < b" "b \<le> 60"
    | "a \<le> 40" "60 < b" | "40 < a" "b \<le> 55" | "40 < a" "a \<le> 55" "55 < b" "b \<le> 60"
    | "40 < a" "a \<le> 55" "60 < b" | "55 < a" "b \<le> 60" | "55 < a" "a \<le> 60" "60 < b"
    | "60 < a"
    using assms by linarith
  then show ?thesis
  proof cases
    case 1 then show ?thesis using assms by (simp add: scaled_of_def)
  next
    case 2 then show ?thesis using second_piece_range [of b] by (simp add: scaled_of_def)
  next
    case 3 then show ?thesis using third_piece_range [of b] by (simp add: scaled_of_def)
  next
    case 4 then show ?thesis by (simp add: scaled_of_def)
  next
    case 5 then show ?thesis using assms second_piece_mono [of a b] by (simp add: scaled_of_def)
  next
    case 6 then show ?thesis using second_piece_range [of a] third_piece_range [of b]
      by (simp add: scaled_of_def)
  next
    case 7 then show ?thesis using second_piece_range [of a] by (simp add: scaled_of_def)
  next
    case 8 then show ?thesis using assms third_piece_mono [of a b] by (simp add: scaled_of_def)
  next
    case 9 then show ?thesis using third_piece_range [of a] by (simp add: scaled_of_def)
  next
    case 10 then show ?thesis using assms by (simp add: scaled_of_def)
  qed
qed

lemma scaled_of_range: "0 \<le> a \<Longrightarrow> 0 \<le> scaled_of a \<and> scaled_of a \<le> 98"
  using second_piece_range [of a] third_piece_range [of a]
  by (auto simp: scaled_of_def)

lemma second_piece_error:
  assumes "40 < a" and "a \<le> 55"
  shows "\<bar>second_piece a - (40 + (a - 40) * 50 / 15)\<bar> \<le> 1 / 2 ^ 45"
proof -
  define d where "d = a - 40"
  define x1 where "x1 = to_double d"
  define x2 where "x2 = to_double (x1 * 50)"
  define x3 where "x3 = to_double (x2 / 15)"
  define x4 where "x4 = to_double (40 + x3)"
  have d: "0 < d" "d \<le> 15" using assms by (simp_all add: d_def)
  have e1: "\<bar>x1 - d\<bar> \<le> 2 ^ 4 / 2 ^ 54"
    unfolding x1_def using d by (intro to_double_error_nat) simp
  have "\<bar>x1 * 50\<bar> < 2 ^ 10" using e1 d by (simp add: abs_if split: if_splits)
  then have e2: "\<bar>x2 - x1 * 50\<bar> \<le> 2 ^ 10 / 2 ^ 54"
    unfolding x2_def by (rule to_double_error_nat)
  have "\<bar>x2 / 15\<bar> < 2 ^ 6" using e1 e2 d by (simp add: abs_if split: if_splits)
  then have e3: "\<bar>x3 - x2 / 15\<bar> \<le> 2 ^ 6 / 2 ^ 54"
    unfolding x3_def by (rule to_double_error_nat)
  have "\<bar>40 + x3\<bar> < 2 ^ 7" using e1 e2 e3 d by (simp add: abs_if split: if_splits)
  then have e4: "\<bar>x4 - (40 + x3)\<bar> \<le> 2 ^ 7 / 2 ^ 54"
    unfolding x4_def by (rule to_double_error_nat)
  have "second_piece a = x4"
    by (simp add: second_piece_def x4_def x3_def x2_def x1_def d_def)
  moreover have "\<bar>x4 - (40 + d * 50 / 15)\<bar> \<le> 1 / 2 ^ 45"
    using e1 e2 e3 e4 by (simp add: abs_if split: if_splits)
  ultimately show ?thesis by (simp add: d_def)
qed

lemma third_piece_error:
  assumes "55 < a" and "a \<le> 60"
  shows "\<bar>third_piece a - (90 + (a - 55))\<bar> \<le> 1 / 2 ^ 45"
proof -
  define d where "d = a - 55"
  define x1 where "x1 = to_double d"
  define x2 where "x2 = to_double (x1 * 5)"
  define x3 where "x3 = to_double (x2 / 5)"
  define x4 where "x4 = to_double (90 + x3)"
  have d: "0 < d" "d \<le> 5" using assms by (simp_all add: d_def)
  have e1: "\<bar>x1 - d\<bar> \<le> 2 ^ 3 / 2 ^ 54"
    unfolding x1_def using d by (intro to_double_error_nat) simp
  have "\<bar>x1 * 5\<bar> < 2 ^ 5" using e1 d by (simp add: abs_if split: if_splits)
  then have e2: "\<bar>x2 - x1 * 5\<bar> \<le> 2 ^ 5 / 2 ^ 54"
    unfolding x2_def by (rule to_double_error_nat)
  have "\<bar>x2 / 5\<bar> < 2 ^ 3" using e1 e2 d by (simp add: abs_if split: if_splits)
  then have e3: "\<bar>x3 - x2 / 5\<bar> \<le> 2 ^ 3 / 2 ^ 54"
    unfolding x3_def by (rule to_double_error_nat)
  have "\<bar>90 + x3\<bar> < 2 ^ 7" using e1 e2 e3 d by (simp add: abs_if split: if_splits)
  then have e4: "\<bar>x4 - (90 + x3)\<bar> \<le> 2 ^ 7 / 2 ^ 54"
    unfolding x4_def by (rule to_double_error_nat)
  have "third_piece a = x4"
    by (simp add: third_piece_def x4_def x3_def x2_def x1_def d_def)
  moreover have "\<bar>x4 - (90 + d)\<bar> \<le> 1 / 2 ^ 45"
    using e1 e2 e3 e4 by (simp add: abs_if split: if_splits)
  ultimately show ?thesis by (simp add: d_def)
qed

lemma lit_d030: "to_double 0.30 = (5404319552844595 / 18014398509481984)"
  using to_double_eval [of "-2" "0.30"] by (simp add: py_round_def)

lemma scale_d030: "scale_confidence (5404319552844595 / 18014398509481984) = Inr 30"
proof -
  have a: "to_double ((5404319552844595 / 18014398509481984) * 100) = 30"
    using to_double_eval [of "4" "(5404319552844595 / 18014398509481984) * 100"] by (simp add: py_round_def)
  have u: "scale_confidence (5404319552844595 / 18014398509481984) = Inr (py_round (scaled_of (to_double ((5404319552844595 / 18014398509481984) * 100))))"
    by (rule scale_confidence_scaled_of) (simp add: dbl_overflows_def)
  have s: "scaled_of 30 = 30" by (simp add: scaled_of_def)
  have r: "py_round 30 = 30" by (simp add: py_round_def)
  show ?thesis by (simp only: u a s r)
qed

lemma lit_d045: "to_double 0.45 = (8106479329266893 / 18014398509481984)"
  using to_double_eval [of "-2" "0.45"] by (simp add: py_round_def)

lemma scale_d045: "scale_confidence (8106479329266893 / 18014398509481984) = Inr 57"
proof -
  have a: "to_double ((8106479329266893 / 18014398509481984) * 100) = 45"
    using to_double_eval [of "5" "(8106479329266893 / 18014398509481984) * 100"] by (simp add: py_round_def)
  have u: "scale_confidence (8106479329266893 / 18014398509481984) = Inr (py_round (scaled_of (to_double ((8106479329266893 / 18014398509481984) * 100))))"
    by (rule scale_confidence_scaled_of) (simp add: dbl_overflows_def)
  have t1: "to_double (45 - 40) = 5"
    using to_double_eval [of "2" "45 - 40"] by (simp add: py_round_def)
  have t2: "to_double (5 * 50) = 250"
    using to_double_eval [of "7" "5 * 50"] by (simp add: py_round_def)
  have t3: "to_double (250 / 15) = (4691249611844267 / 281474976710656)"
    using to_double_eval [of "4" "250 / 15"] by (simp add: py_round_def)
  have t4: "to_double (40 + (4691249611844267 / 281474976710656)) = (3987562170067627 / 70368744177664)"
    using to_double_eval [of "5" "40 + (4691249611844267 / 281474976710656)"] by (simp add: py_round_def)
  have p: "second_piece 45 = (3987562170067627 / 70368744177664)"
    by (simp only: second_piece_def t1 t2 t3 t4)
  have s: "scaled_of 45 = (3987562170067627 / 70368744177664)" unfolding p [symmetric] by (simp add: scaled_of_def)
  have r: "py_round (3987562170067627 / 70368744177664) = 57" by (simp add: py_round_def)
  show ?thesis by (simp only: u a s r)
qed

lemma lit_d058: "to_double 0.58 = (5224175567749775 / 9007199254740992)"
  using to_double_eval [of "-1" "0.58"] by (simp add: py_round_def)

lemma scale_d058: "scale_confidence (5224175567749775 / 9007199254740992) = Inr 93"
proof -
  have a: "to_double ((5224175567749775 / 9007199254740992) * 100) = (8162774324609023 / 140737488355328)"
    using to_double_eval [of "5" "(5224175567749775 / 9007199254740992) * 100"] by (simp add: py_round_def)
  have u: "scale_confidence (5224175567749775 / 9007199254740992) = Inr (py_round (scaled_of (to_double ((5224175567749775 / 9007199254740992) * 100))))"
    by (rule scale_confidence_scaled_of) (simp add: dbl_overflows_def)
  have t1: "to_double ((8162774324609023 / 140737488355328) - 55) = (422212465065983 / 140737488355328)"
    using to_double_eval [of "1" "(8162774324609023 / 140737488355328) - 55"] by (simp add: py_round_def)
  have t2: "to_double ((422212465065983 / 140737488355328) * 5) = (2111062325329915 / 140737488355328)"
    using to_double_eval [of "3" "(422212465065983 / 140737488355328) * 5"] by (simp add: py_round_def)
  have t3: "to_double ((2111062325329915 / 140737488355328) / 5) = (422212465065983 / 140737488355328)"
    using to_double_eval [of "1" "(2111062325329915 / 140737488355328) / 5"] by (simp add: py_round_def)
  have t4: "to_double (90 + (422212465065983 / 140737488355328)) = 93"
    using to_double_eval [of "6" "90 + (422212465065983 / 140737488355328)"] by (simp add: py_round_def)
  have p: "third_piece (8162774324609023 / 140737488355328) = 93"
    by (simp only: third_piece_def t1 t2 t3 t4)
  have s: "scaled_of (8162774324609023 / 140737488355328) = 93" unfolding p [symmetric] by (simp add: scaled_of_def)
  have r: "py_round 93 = 93" by (simp add: py_round_def)
  show ?thesis by (simp only: u a s r)
qed

lemma lit_d070: "to_double 0.70 = (3152519739159347 / 4503599627370496)"
  using to_double_eval [of "-1" "0.70"] by (simp add: py_round_def)

lemma scale_d070: "scale_confidence (3152519739159347 / 4503599627370496) = Inr 98"
proof -
  have a: "to_double ((3152519739159347 / 4503599627370496) * 100) = 70"
    using to_double_eval [of "6" "(3152519739159347 / 4503599627370496) * 100"] by (simp add: py_round_def)
  have u: "scale_confidence (3152519739159347 / 4503599627370496) = Inr (py_round (scaled_of (to_double ((3152519739159347 / 4503599627370496) * 100))))"
    by (rule scale_confidence_scaled_of) (simp add: dbl_overflows_def)
  have s: "scaled_of 70 = 98" by (simp add: scaled_of_def)
  have r: "py_round 98 = 98" by (simp add: py_round_def)
  show ?thesis by (simp only: u a s r)
qed

lemma scale_d04405: "scale_confidence (3967671271713407 / 9007199254740992) = Inr 53"
proof -
  have a: "to_double ((3967671271713407 / 9007199254740992) * 100) = (3099743181026099 / 70368744177664)"
    using to_double_eval [of "5" "(3967671271713407 / 9007199254740992) * 100"] by (simp add: py_round_def)
  have u: "scale_confidence (3967671271713407 / 9007199254740992) = Inr (py_round (scaled_of (to_double ((3967671271713407 / 9007199254740992) * 100))))"
    by (rule scale_confidence_scaled_of) (simp add: dbl_overflows_def)
  have t1: "to_double ((3099743181026099 / 70368744177664) - 40) = (284993413919539 / 70368744177664)"
    using to_double_eval [of "2" "(3099743181026099 / 70368744177664) - 40"] by (simp add: py_round_def)
  have t2: "to_double ((284993413919539 / 70368744177664) * 50) = (7124835347988475 / 35184372088832)"
    using to_double_eval [of "7" "(284993413919539 / 70368744177664) * 50"] by (simp add: py_round_def)
  have t3: "to_double ((7124835347988475 / 35184372088832) / 15) = (7599824371187707 / 562949953421312)"
    using to_double_eval [of "3" "(7124835347988475 / 35184372088832) / 15"] by (simp add: py_round_def)
  have t4: "to_double (40 + (7599824371187707 / 562949953421312)) = (7529455627010047 / 140737488355328)"
    using to_double_eval [of "5" "40 + (7599824371187707 / 562949953421312)"] by (simp add: py_round_def)
  have p: "second_piece (3099743181026099 / 70368744177664) = (7529455627010047 / 140737488355328)"
    by (simp only: second_piece_def t1 t2 t3 t4)
  have s: "scaled_of (3099743181026099 / 70368744177664) = (7529455627010047 / 140737488355328)" unfolding p [symmetric] by (simp add: scaled_of_def)
  have r: "py_round (7529455627010047 / 140737488355328) = 53" by (simp add: py_round_def)
  show ?thesis by (simp only: u a s r)
qed


lemma scale_confidence_in_range:
  assumes "0 \<le> raw" and "raw \<le> 1"
  shows "\<not> dbl_overflows (raw * 100)"
    and "0 \<le> to_double (raw * 100)"
proof -
  have "\<bar>raw * 100\<bar> \<le> 100" using assms by (simp add: abs_if)
  moreover have "(100::real) < 2 ^ 1024 - 2 ^ 970" by simp
  ultimately show "\<not> dbl_overflows (raw * 100)" unfolding dbl_overflows_def by linarith
  show "0 \<le> to_double (raw * 100)" using assms by (intro to_double_nonneg) simp
qed

lemma scaled_of_near_table:
  "\<bar>scaled_of a - spec_normalize_table a\<bar> \<le> 1 / 2 ^ 45"
proof -
  consider "a \<le> 40" | "40 < a" "a \<le> 55" | "55 < a" "a \<le> 60" | "60 < a" by linarith
  then show ?thesis
  proof cases
    case 1 then show ?thesis by (simp add: scaled_of_def spec_normalize_table_def)
  next
    case 2
    then show ?thesis using second_piece_error [of a]
      by (simp add: scaled_of_def spec_normalize_table_def)
  next
    case 3
    then show ?thesis using third_piece_error [of a]
      by (simp add: scaled_of_def spec_normalize_table_def)
  next
    case 4 then show ?thesis by (simp add: scaled_of_def spec_normalize_table_def)
  qed
qed

lemma scaled_of_is_table: "a \<le> 40 \<or> 60 < a \<Longrightarrow> scaled_of a = spec_normalize_table a"
  by (auto simp: scaled_of_def spec_normalize_table_def)

lemma scale_confidence_nonneg:
  assumes "0 \<le> conf"
  shows "\<exists>n. scale_confidence conf = Inr n \<and> 0 \<le> n \<and> n \<le> 98"
proof (cases "dbl_overflows (conf * 100)")
  case True
  then have "conf \<noteq> 0" by (auto simp: dbl_overflows_def)
  then show ?thesis using True assms by (simp add: scale_confidence_def)
next
  case False
  have "0 \<le> to_double (conf * 100)" using assms by (intro to_double_nonneg) simp
  then have r: "0 \<le> scaled_of (to_double (conf * 100))" "scaled_of (to_double (conf * 100)) \<le> 98"
    using scaled_of_range by simp_all
  have "py_round 0 \<le> py_round (scaled_of (to_double (conf * 100)))"
    using r(1) by (rule py_round_mono)
  moreover have "py_round (scaled_of (to_double (conf * 100))) \<le> py_round 98"
    using r(2) by (rule py_round_mono)
  moreover have "py_round 0 = 0" "py_round 98 = 98" by (simp_all add: py_round_def)
  ultimately show ?thesis using scale_confidence_scaled_of [OF False] by simp
qed

lemma scale_confidence_mono:
  assumes "0 \<le> a" and "a \<le> b"
  shows "\<exists>m n. scale_confidence a = Inr m \<and> scale_confidence b = Inr n \<and> m \<le> n"
proof -
  obtain m where m: "scale_confidence a = Inr m" "m \<le> 98"
    using scale_confidence_nonneg [OF assms(1)] by blast
  have b0: "0 \<le> b" using assms by simp
  show ?thesis
  proof (cases "dbl_overflows (b * 100)")
    case True
    then have "b \<noteq> 0" by (auto simp: dbl_overflows_def)
    then have "scale_confidence b = Inr 98" using True b0 by (simp add: scale_confidence_def)
    then show ?thesis using m by simp
  next
    case False
    have "\<bar>a * 100\<bar> \<le> \<bar>b * 100\<bar>" using assms by (simp add: abs_if)
    then have na: "\<not> dbl_overflows (a * 100)" using False unfolding dbl_overflows_def by linarith
    have "to_double (a * 100) \<le> to_double (b * 100)"
      using assms by (intro to_double_mono) simp_all
    then have "scaled_of (to_double (a * 100)) \<le> scaled_of (to_double (b * 100))"
      by (rule scaled_of_mono)
    then have "py_round (scaled_of (to_double (a * 100))) \<le> py_round (scaled_of (to_double (b * 100)))"
      by (rule py_round_mono)
    then show ?thesis
      using scale_confidence_scaled_of [OF na] scale_confidence_scaled_of [OF False] by simp
  qed
qed

text \<open>
  Claim C3 (as the code has it). \<open>scale_confidence\<close> evaluates the table in double
  arithmetic. For every raw confidence in [0,1], with \<open>actual\<close> the double nearest to
  \<open>raw \<times> 100\<close> (at most \<open>1 / 2 ^ 47\<close> away from it), the result is an integer of [0,100]
  at distance at most \<open>1/2 + 1 / 2 ^ 45\<close> from the table's value at \<open>actual\<close>, and it
  is the rounding (Python's, a half to the even neighbour) of the table's value where
  \<open>actual \<le> 40\<close> or \<open>actual > 60\<close>; between them each operation of the table rounds
  to a double first. At the doubles that 0.30, 0.45, 0.58 and 0.70 denote the results are
  30, 57, 93 and 98, and the function is monotonic non-decreasing on the non-negative
  confidences. It is not always the rounding of the exact table value.
\<close>

theorem scale_confidence_table:
  "(\<forall>raw. 0 \<le> raw \<and> raw \<le> 1 \<longrightarrow>
      (\<exists>n. scale_confidence raw = Inr n \<and> 0 \<le> n \<and> n \<le> 100
         \<and> \<bar>to_double (raw * 100) - raw * 100\<bar> \<le> 1 / 2 ^ 47
         \<and> \<bar>of_int n - spec_normalize_table (to_double (raw * 100))\<bar> \<le> 1 / 2 + 1 / 2 ^ 45
         \<and> (to_double (raw * 100) \<le> 40 \<or> 60 < to_double (raw * 100) \<longrightarrow>
              n = py_round (spec_normalize_table (to_double (raw * 100))))))
   \<and> scale_confidence (to_double 0.30) = Inr 30
   \<and> scale_confidence (to_double 0.45) = Inr 57
   \<and> scale_confidence (to_double 0.58) = Inr 93
   \<and> scale_confidence (to_double 0.70) = Inr 98
   \<and> (\<forall>a b. 0 \<le> a \<and> a \<le> b \<longrightarrow>
        (\<exists>m n. scale_confidence a = Inr m \<and> scale_confidence b = Inr n \<and> m \<le> n))"
proof (intro conjI allI impI)
  fix raw :: real
  assume r: "0 \<le> raw \<and> raw \<le> 1"
  define actual where "actual = to_double (raw * 100)"
  define n where "n = py_round (scaled_of actual)"
  have no: "\<not> dbl_overflows (raw * 100)" using r scale_confidence_in_range by simp
  have sc: "scale_confidence raw = Inr n"
    using scale_confidence_scaled_of [OF no] by (simp add: n_def actual_def)
  obtain n' where "scale_confidence raw = Inr n'" "0 \<le> n'" "n' \<le> 98"
    using scale_confidence_nonneg [of raw] r by blast
  then have rng: "0 \<le> n" "n \<le> 100" using sc by simp_all
  have "\<bar>raw * 100\<bar> < 2 ^ 7" using r by (simp add: abs_if)
  then have "\<bar>to_double (raw * 100) - raw * 100\<bar> \<le> 2 ^ 7 / 2 ^ 54"
    by (rule to_double_error_nat)
  then have e: "\<bar>to_double (raw * 100) - raw * 100\<bar> \<le> 1 / 2 ^ 47" by simp
  have "\<bar>of_int n - scaled_of actual\<bar> \<le> 1 / 2"
    unfolding n_def by (rule py_round_nearest)
  moreover have "\<bar>scaled_of actual - spec_normalize_table actual\<bar> \<le> 1 / 2 ^ 45"
    by (rule scaled_of_near_table)
  ultimately have near: "\<bar>of_int n - spec_normalize_table actual\<bar> \<le> 1 / 2 + 1 / 2 ^ 45"
    by linarith
  have ex: "actual \<le> 40 \<or> 60 < actual \<longrightarrow> n = py_round (spec_normalize_table actual)"
    using scaled_of_is_table [of actual] by (auto simp: n_def)
  show "\<exists>n. scale_confidence raw = Inr n \<and> 0 \<le> n \<and> n \<le> 100
         \<and> \<bar>to_double (raw * 100) - raw * 100\<bar> \<le> 1 / 2 ^ 47
         \<and> \<bar>of_int n - spec_normalize_table (to_double (raw * 100))\<bar> \<le> 1 / 2 + 1 / 2 ^ 45
         \<and> (to_double (raw * 100) \<le> 40 \<or> 60 < to_double (raw * 100) \<longrightarrow>
              n = py_round (spec_normalize_table (to_double (raw * 100))))"
    using sc rng e near ex unfolding actual_def by blast
next
  show "scale_confidence (to_double 0.30) = Inr 30" by (simp only: lit_d030 scale_d030)
  show "scale_confidence (to_double 0.45) = Inr 57" by (simp only: lit_d045 scale_d045)
  show "scale_confidence (to_double 0.58) = Inr 93" by (simp only: lit_d058 scale_d058)
  show "scale_confidence (to_double 0.70) = Inr 98" by (simp only: lit_d070 scale_d070)
next
  fix a b :: real
  assume "0 \<le> a \<and> a \<le> b"
  then show "\<exists>m n. scale_confidence a = Inr m \<and> scale_confidence b = Inr n \<and> m \<le> n"
    using scale_confidence_mono by blast
qed

theorem scale_confidence_table_witness:
  "(\<exists>n. scale_confidence 0.5 = Inr n \<and> 0 \<le> n \<and> n \<le> 100
       \<and> \<bar>of_int n - spec_normalize_table (to_double (0.5 * 100))\<bar> \<le> 1 / 2 + 1 / 2 ^ 45)
   \<and> (\<exists>m n. scale_confidence 0.25 = Inr m \<and> scale_confidence 0.5 = Inr n \<and> m \<le> n)"
proof -
  have "0 \<le> (0.5::real) \<and> (0.5::real) \<le> 1" by simp
  then have "\<exists>n. scale_confidence 0.5 = Inr n \<and> 0 \<le> n \<and> n \<le> 100
       \<and> \<bar>of_int n - spec_normalize_table (to_double (0.5 * 100))\<bar> \<le> 1 / 2 + 1 / 2 ^ 45"
    using scale_confidence_table by blast
  moreover have "0 \<le> (0.25::real) \<and> (0.25::real) \<le> 0.5" by simp
  then have "\<exists>m n. scale_confidence 0.25 = Inr m \<and> scale_confidence 0.5 = Inr n \<and> m \<le> n"
    using scale_confidence_table by blast
  ultimately show ?thesis by blast
qed

text \<open>At the double that 0.4405 denotes the code returns 53, where the table's exact value
  at 100 times that double, 53.5 and a little, rounds to 54.\<close>

theorem scale_confidence_table_counterexample:
  "scale_confidence (3967671271713407 / 9007199254740992) = Inr 53
   \<and> py_round (spec_normalize_table (3967671271713407 / 9007199254740992 * 100)) = 54
   \<and> round (spec_normalize_table (3967671271713407 / 9007199254740992 * 100)) = 54"
  by (simp add: scale_d04405 spec_normalize_table_def py_round_def round_def)

section \<open>The conclusion rules\<close>

lemma dict_fromkeys_small:
  "dict_fromkeys [a] = [a]"
  "a \<noteq> b \<Longrightarrow> dict_fromkeys [a, b] = [a, b]"
  "a \<noteq> b \<Longrightarrow> a \<noteq> c \<Longrightarrow> b \<noteq> c \<Longrightarrow> dict_fromkeys [a, b, c] = [a, b, c]"
  by (simp_all add: dict_fromkeys_def)

text \<open>What \<open>conclusion_analysis\<close> returns on a numeric confidence, with the tests on
  the risk string resolved.\<close>

lemma conclusion_analysis_numeric:
  assumes "num_of (dict_get a ''confidence'' (PInt 0)) = Some c"
  shows "conclusion_analysis a =
     Inr [(''riskLevel'', PStr (if c \<le> 40 then ''Low''
                               else if c \<le> 60 then ''Medium''
                               else if c \<le> 75 then ''High'' else ''Very High'')),
          (''confidence'', dict_get a ''confidence'' (PInt 0)),
          (''trajectory'',
             (if dict_get a ''trajectory'' (PStr ''Unknown'') = PStr ''Unknown''
              then (if c > 70 then PStr ''Unstable''
                    else if c > 50 then PStr ''Moderate'' else PStr ''Stable'')
              else dict_get a ''trajectory'' (PStr ''Unknown''))),
          (''rockSize'',
             (if dict_get a ''rockSize'' (PStr ''Unknown'') = PStr ''Unknown''
              then (if c > 75 then PStr ''Large''
                    else if c > 50 then PStr ''Medium'' else PStr ''Small'')
              else dict_get a ''rockSize'' (PStr ''Unknown''))),
          (''recommendations'', PList (map PStr
             (if c \<le> 60
              then ''Continue monitoring'' #
                   (if (if dict_get a ''rockSize'' (PStr ''Unknown'') = PStr ''Unknown''
                        then (if c > 75 then PStr ''Large''
                              else if c > 50 then PStr ''Medium'' else PStr ''Small'')
                        else dict_get a ''rockSize'' (PStr ''Unknown''))
                       \<in> {PStr ''Medium'', PStr ''Large''}
                    then [''Schedule inspection''] else [])
              else [''Immediate inspection'', ''Evacuate personnel if necessary''] @
                   (if (if dict_get a ''trajectory'' (PStr ''Unknown'') = PStr ''Unknown''
                        then (if c > 70 then PStr ''Unstable''
                              else if c > 50 then PStr ''Moderate'' else PStr ''Stable'')
                        else dict_get a ''trajectory'' (PStr ''Unknown'')) = PStr ''Unstable''
                    then [''Reinforce support structures''] else []))))]"
proof -
  consider "c \<le> 40" | "40 < c" "c \<le> 60" | "60 < c" "c \<le> 75" | "75 < c" by linarith
  then show ?thesis
  proof cases
    case 1
    then show ?thesis using assms
      by (simp add: conclusion_analysis_def Let_def dict_fromkeys_small)
  next
    case 2
    then show ?thesis using assms
      by (simp add: conclusion_analysis_def Let_def dict_fromkeys_small)
  next
    case 3
    then show ?thesis using assms
      by (simp add: conclusion_analysis_def Let_def dict_fromkeys_small)
  next
    case 4
    then show ?thesis using assms
      by (simp add: conclusion_analysis_def Let_def dict_fromkeys_small)
  qed
qed

lemma conclusion_analysis_Inr_numeric:
  "conclusion_analysis a = Inr b \<Longrightarrow> \<exists>c. num_of (dict_get a ''confidence'' (PInt 0)) = Some c"
  by (cases "num_of (dict_get a ''confidence'' (PInt 0))")
     (simp_all add: conclusion_analysis_def Let_def)

lemma conclusion_analysis_returns:
  "num_of (dict_get a ''confidence'' (PInt 0)) \<noteq> None \<Longrightarrow> \<exists>b. conclusion_analysis a = Inr b"
  using conclusion_analysis_numeric [of a] by auto

lemma conclusion_analysis_fixpoint:
  assumes "conclusion_analysis a = Inr b"
  shows "conclusion_analysis b = Inr b"
proof -
  obtain c where c: "num_of (dict_get a ''confidence'' (PInt 0)) = Some c"
    using conclusion_analysis_Inr_numeric [OF assms] by blast
  define conf where "conf = dict_get a ''confidence'' (PInt 0)"
  define T where "T =
     (if dict_get a ''trajectory'' (PStr ''Unknown'') = PStr ''Unknown''
      then (if c > 70 then PStr ''Unstable''
            else if c > 50 then PStr ''Moderate'' else PStr ''Stable'')
      else dict_get a ''trajectory'' (PStr ''Unknown''))"
  define R where "R =
     (if dict_get a ''rockSize'' (PStr ''Unknown'') = PStr ''Unknown''
      then (if c > 75 then PStr ''Large''
            else if c > 50 then PStr ''Medium'' else PStr ''Small'')
      else dict_get a ''rockSize'' (PStr ''Unknown''))"
  define L where "L =
     [(''riskLevel'', PStr (if c \<le> 40 then ''Low''
                               else if c \<le> 60 then ''Medium''
                               else if c \<le> 75 then ''High'' else ''Very High'')),
      (''confidence'', conf), (''trajectory'', T), (''rockSize'', R),
      (''recommendations'', PList (map PStr
             (if c \<le> 60
              then ''Continue monitoring'' #
                   (if R \<in> {PStr ''Medium'', PStr ''Large''}
                    then [''Schedule inspection''] else [])
              else [''Immediate inspection'', ''Evacuate personnel if necessary''] @
                   (if T = PStr ''Unstable''
                    then [''Reinforce support structures''] else []))))]"
  have T: "T \<noteq> PStr ''Unknown''" and R: "R \<noteq> PStr ''Unknown''"
    by (simp_all add: T_def R_def)
  have b: "b = L"
    using assms unfolding conclusion_analysis_numeric [OF c] conf_def T_def R_def L_def by simp
  have get: "dict_get L ''confidence'' (PInt 0) = conf"
       "dict_get L ''trajectory'' (PStr ''Unknown'') = T"
       "dict_get L ''rockSize'' (PStr ''Unknown'') = R"
    unfolding L_def by (simp_all add: dict_get_def)
  have c': "num_of (dict_get L ''confidence'' (PInt 0)) = Some c"
    using c get(1) conf_def by simp
  have "conclusion_analysis L = Inr L"
    unfolding conclusion_analysis_numeric [OF c'] get using T R
    by (simp add: L_def)
  then show ?thesis by (simp add: b)
qed

lemma conclusion_analysis_reads:
  assumes "map_of a ''confidence'' = map_of a' ''confidence''"
      and "map_of a ''rockSize'' = map_of a' ''rockSize''"
      and "map_of a ''trajectory'' = map_of a' ''trajectory''"
  shows "conclusion_analysis a = conclusion_analysis a'"
  using assms unfolding conclusion_analysis_def dict_get_def by simp

lemma conclusion_analysis_recommendations:
  assumes "conclusion_analysis a = Inr out"
  shows "\<exists>rs. map_of out ''recommendations'' = Some (PList (map PStr rs)) \<and>
           set rs \<subseteq> {''Continue monitoring'', ''Schedule inspection'', ''Immediate inspection'',
                       ''Evacuate personnel if necessary'', ''Reinforce support structures''}"
proof -
  obtain c where c: "num_of (dict_get a ''confidence'' (PInt 0)) = Some c"
    using conclusion_analysis_Inr_numeric [OF assms] by blast
  define T where "T =
     (if dict_get a ''trajectory'' (PStr ''Unknown'') = PStr ''Unknown''
      then (if c > 70 then PStr ''Unstable''
            else if c > 50 then PStr ''Moderate'' else PStr ''Stable'')
      else dict_get a ''trajectory'' (PStr ''Unknown''))"
  define R where "R =
     (if dict_get a ''rockSize'' (PStr ''Unknown'') = PStr ''Unknown''
      then (if c > 75 then PStr ''Large''
            else if c > 50 then PStr ''Medium'' else PStr ''Small'')
      else dict_get a ''rockSize'' (PStr ''Unknown''))"
  define rs where "rs =
     (if c \<le> 60
      then ''Continue monitoring'' #
           (if R \<in> {PStr ''Medium'', PStr ''Large''} then [''Schedule inspection''] else [])
      else [''Immediate inspection'', ''Evacuate personnel if necessary''] @
           (if T = PStr ''Unstable'' then [''Reinforce support structures''] else []))"
  have "out = [(''riskLevel'', PStr (if c \<le> 40 then ''Low''
                               else if c \<le> 60 then ''Medium''
                               else if c \<le> 75 then ''High'' else ''Very High'')),
               (''confidence'', dict_get a ''confidence'' (PInt 0)),
               (''trajectory'', T), (''rockSize'', R),
               (''recommendations'', PList (map PStr rs))]"
    using assms unfolding conclusion_analysis_numeric [OF c] T_def R_def rs_def by simp
  then have "map_of out ''recommendations'' = Some (PList (map PStr rs))"
    by simp
  moreover have "set rs \<subseteq> {''Continue monitoring'', ''Schedule inspection'',
      ''Immediate inspection'', ''Evacuate personnel if necessary'',
      ''Reinforce support structures''}"
    unfolding rs_def by auto
  ultimately show ?thesis by blast
qed

text \<open>
  Claim C4. For every calibrated confidence \<open>c\<close> (in [0,100] or not), whatever else the
  seed analysis holds, the risk level that \<open>conclusion_analysis\<close> returns is Low for
  \<open>c \<le> 40\<close>, Medium for \<open>40 < c \<le> 60\<close>, High for \<open>60 < c \<le> 75\<close> and Very High
  above 75: it is a function of \<open>c\<close> alone. (The code spells the last tier "Very High".)
\<close>

theorem risk_level_table:
  "map_of analysis ''confidence'' = Some (PInt c) \<Longrightarrow>
   \<exists>out. conclusion_analysis analysis = Inr out \<and>
     map_of out ''riskLevel'' =
       Some (PStr (if c \<le> 40 then ''Low''
                   else if c \<le> 60 then ''Medium''
                   else if c \<le> 75 then ''High''
                   else ''Very High''))"
  unfolding conclusion_analysis_def Let_def dict_get_def
  by simp

theorem risk_level_table_witness:
  "(\<exists>out. conclusion_analysis [(''confidence'', PInt 40), (''rockSize'', PStr ''Large'')] = Inr out
          \<and> map_of out ''riskLevel'' = Some (PStr ''Low''))
   \<and> (\<exists>out. conclusion_analysis [(''confidence'', PInt 41)] = Inr out
          \<and> map_of out ''riskLevel'' = Some (PStr ''Medium''))
   \<and> (\<exists>out. conclusion_analysis [(''trajectory'', PStr ''Stable''), (''confidence'', PInt 60)] = Inr out
          \<and> map_of out ''riskLevel'' = Some (PStr ''Medium''))
   \<and> (\<exists>out. conclusion_analysis [(''confidence'', PInt 75)] = Inr out
          \<and> map_of out ''riskLevel'' = Some (PStr ''High''))
   \<and> (\<exists>out. conclusion_analysis [(''confidence'', PInt 76)] = Inr out
          \<and> map_of out ''riskLevel'' = Some (PStr ''Very High''))"
  using risk_level_table [of "[(''confidence'', PInt 40), (''rockSize'', PStr ''Large'')]" 40]
        risk_level_table [of "[(''confidence'', PInt 41)]" 41]
        risk_level_table [of "[(''trajectory'', PStr ''Stable''), (''confidence'', PInt 60)]" 60]
        risk_level_table [of "[(''confidence'', PInt 75)]" 75]
        risk_level_table [of "[(''confidence'', PInt 76)]" 76]
  by simp

text \<open>
  Claim C7. \<open>conclusion_analysis\<close> is idempotent: whenever it returns an analysis, running
  it on that analysis returns the same analysis; and it does return one for every seed
  whose confidence is a number.
\<close>

theorem conclusion_analysis_idempotent:
  "(conclusion_analysis a = Inr b \<longrightarrow> conclusion_analysis b = Inr b)
   \<and> (num_of (dict_get a ''confidence'' (PInt 0)) \<noteq> None \<longrightarrow> (\<exists>b. conclusion_analysis a = Inr b))"
  using conclusion_analysis_fixpoint conclusion_analysis_returns by blast

theorem conclusion_analysis_idempotent_witness:
  "\<exists>b. conclusion_analysis
          [(''riskLevel'', PStr ''Low''), (''confidence'', PInt 57),
           (''trajectory'', PStr ''Unknown''), (''rockSize'', PStr ''Large''),
           (''recommendations'', PList [PStr ''Wait'', PStr ''Wait''])] = Inr b
        \<and> conclusion_analysis b = Inr b
        \<and> b = [(''riskLevel'', PStr ''Medium''), (''confidence'', PInt 57),
                (''trajectory'', PStr ''Moderate''), (''rockSize'', PStr ''Large''),
                (''recommendations'',
                   PList [PStr ''Continue monitoring'', PStr ''Schedule inspection''])]"
proof -
  let ?a = "[(''riskLevel'', PStr ''Low''), (''confidence'', PInt 57),
             (''trajectory'', PStr ''Unknown''), (''rockSize'', PStr ''Large''),
             (''recommendations'', PList [PStr ''Wait'', PStr ''Wait''])]"
  let ?b = "[(''riskLevel'', PStr ''Medium''), (''confidence'', PInt 57),
             (''trajectory'', PStr ''Moderate''), (''rockSize'', PStr ''Large''),
             (''recommendations'',
                PList [PStr ''Continue monitoring'', PStr ''Schedule inspection''])]"
  have run: "conclusion_analysis ?a = Inr ?b"
    by (simp add: conclusion_analysis_def dict_get_def dict_fromkeys_def)
  then have "conclusion_analysis ?b = Inr ?b"
    using conclusion_analysis_idempotent [of ?a ?b] by blast
  with run show ?thesis by blast
qed

text \<open>
  Claim C10. The recommendations that \<open>conclusion_analysis\<close> returns do not depend on the
  recommendations of the seed: two seeds that agree on every key but
  \<^verbatim>\<open>recommendations\<close> get the same result, and every returned recommendation is one of
  the five fixed texts of the rules, so no text of the seed (an error message of the
  fallback included) reaches the verdict.
\<close>

theorem recommendations_independent_of_seed:
  "(\<forall>k. k \<noteq> ''recommendations'' \<longrightarrow> map_of a k = map_of a' k) \<Longrightarrow>
   conclusion_analysis a = conclusion_analysis a'
   \<and> (\<forall>out. conclusion_analysis a = Inr out \<longrightarrow>
        (\<exists>rs. map_of out ''recommendations'' = Some (PList (map PStr rs)) \<and>
           set rs \<subseteq> {''Continue monitoring'', ''Schedule inspection'', ''Immediate inspection'',
                       ''Evacuate personnel if necessary'', ''Reinforce support structures''}))"
proof -
  assume h: "\<forall>k. k \<noteq> ''recommendations'' \<longrightarrow> map_of a k = map_of a' k"
  have "map_of a ''confidence'' = map_of a' ''confidence''"
       "map_of a ''rockSize'' = map_of a' ''rockSize''"
       "map_of a ''trajectory'' = map_of a' ''trajectory''"
    using h by simp_all
  then have "conclusion_analysis a = conclusion_analysis a'"
    by (rule conclusion_analysis_reads)
  then show ?thesis using conclusion_analysis_recommendations by blast
qed

theorem recommendations_independent_of_seed_witness:
  "conclusion_analysis
     [(''riskLevel'', PStr ''Unknown''), (''confidence'', PInt 98),
      (''trajectory'', PStr ''Unknown''), (''rockSize'', PStr ''Unknown''),
      (''recommendations'', PList [PStr (cross_mark @ '' Gemini failed: quota exceeded'')])]
   = conclusion_analysis
     [(''riskLevel'', PStr ''Unknown''), (''confidence'', PInt 98),
      (''trajectory'', PStr ''Unknown''), (''rockSize'', PStr ''Unknown''),
      (''recommendations'', PList [])]
   \<and> conclusion_analysis
     [(''riskLevel'', PStr ''Unknown''), (''confidence'', PInt 98),
      (''trajectory'', PStr ''Unknown''), (''rockSize'', PStr ''Unknown''),
      (''recommendations'', PList [])]
   = Inr [(''riskLevel'', PStr ''Very High''), (''confidence'', PInt 98),
          (''trajectory'', PStr ''Unstable''), (''rockSize'', PStr ''Large''),
          (''recommendations'',
             PList [PStr ''Immediate inspection'', PStr ''Evacuate personnel if necessary'',
                    PStr ''Reinforce support structures''])]"
proof -
  let ?a = "[(''riskLevel'', PStr ''Unknown''), (''confidence'', PInt 98),
      (''trajectory'', PStr ''Unknown''), (''rockSize'', PStr ''Unknown''),
      (''recommendations'', PList [PStr (cross_mark @ '' Gemini failed: quota exceeded'')])]"
  let ?a' = "[(''riskLevel'', PStr ''Unknown''), (''confidence'', PInt 98),
      (''trajectory'', PStr ''Unknown''), (''rockSize'', PStr ''Unknown''),
      (''recommendations'', PList [])]"
  have "\<forall>k. k \<noteq> ''recommendations'' \<longrightarrow> map_of ?a k = map_of ?a' k" by simp
  then have "conclusion_analysis ?a = conclusion_analysis ?a'"
    using recommendations_independent_of_seed [of ?a ?a'] by blast
  moreover have "conclusion_analysis ?a' =
     Inr [(''riskLevel'', PStr ''Very High''), (''confidence'', PInt 98),
          (''trajectory'', PStr ''Unstable''), (''rockSize'', PStr ''Large''),
          (''recommendations'',
             PList [PStr ''Immediate inspection'', PStr ''Evacuate personnel if necessary'',
                    PStr ''Reinforce support structures''])]"
    by (simp add: conclusion_analysis_def dict_get_def dict_fromkeys_def)
  ultimately show ?thesis by simp
qed

section \<open>The advisory summary and the final confidence\<close>

lemma map_of_dict_set_same: "map_of (dict_set d k v) k = Some v"
  by (induction d) auto

lemma map_of_dict_set_other: "k' \<noteq> k \<Longrightarrow> map_of (dict_set d k v) k' = map_of d k'"
  by (induction d) auto

lemma scan_pred_Inr:
  "scan_pred h p = Inr h' \<Longrightarrow> h' = max (conf_value p) h"
  by (auto simp: scan_pred_def conf_value_def Let_def split: option.splits)

lemma scan_preds_Inr:
  "scan_preds h ps = Inr h' \<Longrightarrow> h' = fold max (map conf_value ps) h"
proof (induction ps arbitrary: h)
  case Nil
  then show ?case by simp
next
  case (Cons p ps)
  then obtain h1 where h1: "scan_pred h p = Inr h1" and rest: "scan_preds h1 ps = Inr h'"
    by (auto split: sum.splits)
  show ?case using Cons.IH [OF rest] scan_pred_Inr [OF h1] by simp
qed

lemma scan_frames_Inr:
  "scan_frames h fs = Inr h' \<Longrightarrow> h' = fold max (raw_confidences fs) h"
proof (induction fs arbitrary: h)
  case Nil
  then show ?case by (simp add: raw_confidences_def)
next
  case (Cons fp fs)
  obtain frame preds where fp: "fp = (frame, preds)" by (cases fp)
  from Cons.prems fp obtain h1 where h1: "scan_preds h preds = Inr h1"
      and rest: "scan_frames h1 fs = Inr h'"
    by (auto split: sum.splits)
  show ?case using Cons.IH [OF rest] scan_preds_Inr [OF h1]
    by (simp add: fp raw_confidences_def)
qed

lemma fold_max_spec:
  assumes "\<forall>c\<in>set cs. (0::real) \<le> c"
  shows "fold max cs 0 = spec_highest_raw cs"
proof (cases cs)
  case Nil
  then show ?thesis by (simp add: spec_highest_raw_def)
next
  case (Cons c cs')
  have "fold max cs 0 = Max (set (0 # cs))" by (simp only: Max.set_eq_fold)
  also have "\<dots> = max 0 (Max (set cs))" using Cons by simp
  also have "\<dots> = Max (set cs)"
  proof -
    have "c \<le> Max (set cs)" using Cons by simp
    moreover have "0 \<le> c" using assms Cons by simp
    ultimately show ?thesis by simp
  qed
  finally show ?thesis using Cons by (simp add: spec_highest_raw_def)
qed


lemma fold_max_ge: "(h::real) \<le> fold max cs h"
proof (induction cs arbitrary: h)
  case Nil
  then show ?case by simp
next
  case (Cons c cs)
  have "h \<le> max c h" by simp
  also have "\<dots> \<le> fold max cs (max c h)" by (rule Cons.IH)
  finally show ?case by simp
qed

lemma scan_frames_nonneg: "scan_frames 0 fs = Inr h \<Longrightarrow> 0 \<le> h"
  using scan_frames_Inr [of 0 fs h] fold_max_ge [of 0 "raw_confidences fs"] by simp

lemma scale_confidence_zero: "scale_confidence 0 = Inr 0"
  by (simp add: scale_confidence_def dbl_overflows_def to_double_zero py_round_def)

lemma scale_d025: "scale_confidence 0.25 = Inr 25"
proof -
  have a: "to_double (0.25 * 100) = 25"
    using to_double_eval [of "4" "0.25 * 100"] by (simp add: py_round_def)
  have u: "scale_confidence 0.25 = Inr (py_round (scaled_of (to_double (0.25 * 100))))"
    by (rule scale_confidence_scaled_of) (simp add: dbl_overflows_def)
  have s: "scaled_of 25 = 25" by (simp add: scaled_of_def)
  have r: "py_round 25 = 25" by (simp add: py_round_def)
  show ?thesis by (simp only: u a s r)
qed

lemma scale_d075: "scale_confidence 0.75 = Inr 98"
proof -
  have a: "to_double (0.75 * 100) = 75"
    using to_double_eval [of "6" "0.75 * 100"] by (simp add: py_round_def)
  have u: "scale_confidence 0.75 = Inr (py_round (scaled_of (to_double (0.75 * 100))))"
    by (rule scale_confidence_scaled_of) (simp add: dbl_overflows_def)
  have s: "scaled_of 75 = 98" by (simp add: scaled_of_def)
  have r: "py_round 98 = 98" by (simp add: py_round_def)
  show ?thesis by (simp only: u a s r)
qed


lemma conclusion_analysis_confidence:
  assumes "map_of a ''confidence'' = Some (PInt n)"
  shows "\<exists>final. conclusion_analysis a = Inr final \<and> map_of final ''confidence'' = Some (PInt n)"
  using assms by (simp add: conclusion_analysis_def Let_def dict_get_def)

text \<open>What \<open>summarize_with_gemini\<close> returns once the scan has passed, case by case.\<close>

lemma summarize_cases:
  assumes "scan_frames 0 preds = Inr h" and "scale_confidence h = Inr n"
  shows "reply = Inl e \<Longrightarrow>
           summarize_with_gemini jl reply preds = Inr (default_seed n (exn_text e))"
    and "reply = Inr t \<Longrightarrow> \<not> truthy (safe_json_loads jl (strip_seqs whitespace t)) \<Longrightarrow>
           summarize_with_gemini jl reply preds = Inr (default_seed n ''Gemini returned invalid JSON'')"
    and "reply = Inr t \<Longrightarrow> truthy (safe_json_loads jl (strip_seqs whitespace t)) \<Longrightarrow>
           \<forall>d. safe_json_loads jl (strip_seqs whitespace t) \<noteq> PDict d \<Longrightarrow>
           summarize_with_gemini jl reply preds =
             Inr (default_seed n (exn_text (setitem_error (safe_json_loads jl (strip_seqs whitespace t)))))"
    and "reply = Inr t \<Longrightarrow> safe_json_loads jl (strip_seqs whitespace t) = PDict d \<Longrightarrow> d \<noteq> [] \<Longrightarrow>
           summarize_with_gemini jl reply preds = Inr (dict_set d ''confidence'' (PInt n))"
proof -
  show "reply = Inl e \<Longrightarrow>
           summarize_with_gemini jl reply preds = Inr (default_seed n (exn_text e))"
    using assms by (simp add: summarize_with_gemini_def summarize_try_def default_seed_def)
  show "reply = Inr t \<Longrightarrow> \<not> truthy (safe_json_loads jl (strip_seqs whitespace t)) \<Longrightarrow>
           summarize_with_gemini jl reply preds = Inr (default_seed n ''Gemini returned invalid JSON'')"
    using assms
    by (simp add: summarize_with_gemini_def summarize_try_def default_seed_def Let_def)
  show "reply = Inr t \<Longrightarrow> safe_json_loads jl (strip_seqs whitespace t) = PDict d \<Longrightarrow> d \<noteq> [] \<Longrightarrow>
           summarize_with_gemini jl reply preds = Inr (dict_set d ''confidence'' (PInt n))"
    using assms
    by (simp add: summarize_with_gemini_def summarize_try_def Let_def)
  show "summarize_with_gemini jl reply preds =
             Inr (default_seed n (exn_text (setitem_error (safe_json_loads jl (strip_seqs whitespace t)))))"
    if r: "reply = Inr t" and tr: "truthy (safe_json_loads jl (strip_seqs whitespace t))"
      and nd: "\<forall>d. safe_json_loads jl (strip_seqs whitespace t) \<noteq> PDict d"
  proof -
    have "summarize_try jl reply h =
            Inl (setitem_error (safe_json_loads jl (strip_seqs whitespace t)))"
      using r tr nd assms(2)
      by (cases "safe_json_loads jl (strip_seqs whitespace t)")
         (simp_all add: summarize_try_def Let_def)
    then show ?thesis
      using assms by (simp add: summarize_with_gemini_def default_seed_def)
  qed
qed

lemma summarize_confidence:
  assumes "summarize_with_gemini jl reply preds = Inr s"
  shows "\<exists>h n. scan_frames 0 preds = Inr h \<and> scale_confidence h = Inr n \<and>
               map_of s ''confidence'' = Some (PInt n)"
proof (cases "scan_frames 0 preds")
  case (Inl e)
  then show ?thesis using assms by (simp add: summarize_with_gemini_def)
next
  case (Inr h)
  have "0 \<le> h" using Inr by (rule scan_frames_nonneg)
  then obtain n where n: "scale_confidence h = Inr n"
    using scale_confidence_nonneg by blast
  note c = summarize_cases [OF Inr n, of reply _ jl]
  have "map_of s ''confidence'' = Some (PInt n)"
  proof (cases reply)
    case (Inl e)
    then show ?thesis using c(1) [of e] assms by (auto simp: default_seed_def)
  next
    case r: (Inr t)
    show ?thesis
    proof (cases "truthy (safe_json_loads jl (strip_seqs whitespace t))")
      case False
      then show ?thesis using c(2) [of t] r assms by (auto simp: default_seed_def)
    next
      case True
      show ?thesis
      proof (cases "\<exists>d. safe_json_loads jl (strip_seqs whitespace t) = PDict d")
        case False
        then show ?thesis using c(3) [of t] r True assms by (auto simp: default_seed_def)
      next
        case d: True
        then obtain d where d: "safe_json_loads jl (strip_seqs whitespace t) = PDict d" by blast
        then have "d \<noteq> []" using True by auto
        then show ?thesis using c(4) [of t d] r d assms by (auto simp: map_of_dict_set_same)
      qed
    qed
  qed
  then show ?thesis using Inr n by blast
qed

lemma scan_preds_well_formed:
  "list_all (\<lambda>p. map_of p ''class'' \<noteq> None \<and> num_of (dict_get p ''confidence'' (PInt 0)) \<noteq> None) ps
    \<Longrightarrow> \<exists>h'. scan_preds h ps = Inr h'"
proof (induction ps arbitrary: h)
  case Nil
  then show ?case by simp
next
  case (Cons p ps)
  then obtain h1 where "scan_pred h p = Inr h1"
    by (auto simp: scan_pred_def Let_def)
  then show ?case using Cons by simp
qed

lemma scan_frames_well_formed:
  "well_formed fs \<Longrightarrow> \<exists>h'. scan_frames h fs = Inr h'"
proof (induction fs arbitrary: h)
  case Nil
  then show ?case by simp
next
  case (Cons fp fs)
  obtain frame preds where fp: "fp = (frame, preds)" by (cases fp)
  have wf: "well_formed fs" using Cons.prems by (simp add: well_formed_def)
  obtain h1 where h1: "scan_preds h preds = Inr h1"
    using scan_preds_well_formed [of preds h] Cons.prems fp by (auto simp: well_formed_def)
  show ?case using Cons.IH [OF wf, of h1] h1 fp by simp
qed

lemma summarize_total:
  assumes "scan_frames 0 preds = Inr h"
  shows "\<exists>s. summarize_with_gemini jl reply preds = Inr s"
proof -
  have "0 \<le> h" using assms by (rule scan_frames_nonneg)
  then obtain n where n: "scale_confidence h = Inr n"
    using scale_confidence_nonneg by blast
  show ?thesis
    using assms n by (simp add: summarize_with_gemini_def split: sum.splits)
qed

lemma pvs_confidence:
  assumes "process_video_and_summarize (Inr preds) jl reply = Inr out"
  shows "\<exists>final h n. scan_frames 0 preds = Inr h \<and> scale_confidence h = Inr n \<and>
           map_of out ''analysis'' = Some (PDict final) \<and>
           map_of final ''confidence'' = Some (PInt n)"
proof (cases "summarize_with_gemini jl reply preds")
  case (Inl e)
  then show ?thesis using assms by (simp add: process_video_and_summarize_def)
next
  case (Inr s)
  obtain h n where h: "scan_frames 0 preds = Inr h" and n: "scale_confidence h = Inr n"
      and sc: "map_of s ''confidence'' = Some (PInt n)"
    using summarize_confidence [OF Inr] by blast
  define analysis where "analysis =
     [(''riskLevel'', dict_get s ''riskLevel'' (PStr ''Unknown'')),
      (''confidence'', dict_get s ''confidence'' (PInt 0)),
      (''trajectory'', dict_get s ''trajectory'' (PStr ''Unknown'')),
      (''rockSize'', dict_get s ''rockSize'' (PStr ''Unknown'')),
      (''recommendations'',
          dict_get s ''recommendations''
            (PList [PStr ''Continue monitoring'', PStr ''Schedule inspection'']))]"
  have "map_of analysis ''confidence'' = Some (PInt n)"
    using sc by (simp add: analysis_def dict_get_def)
  then obtain final where f: "conclusion_analysis analysis = Inr final"
      and fc: "map_of final ''confidence'' = Some (PInt n)"
    using conclusion_analysis_confidence by blast
  have "out = [(''success'', PBool True), (''analysis'', PDict final)]"
    using assms Inr f [unfolded analysis_def]
    by (simp add: process_video_and_summarize_def Let_def)
  then show ?thesis using h n fc by simp
qed

lemma pvs_total:
  assumes "well_formed preds"
  shows "\<exists>out. process_video_and_summarize (Inr preds) jl reply = Inr out"
proof -
  obtain h where h: "scan_frames 0 preds = Inr h"
    using scan_frames_well_formed [OF assms] by blast
  obtain s where s: "summarize_with_gemini jl reply preds = Inr s"
    using summarize_total [OF h] by blast
  obtain n where sc: "map_of s ''confidence'' = Some (PInt n)"
    using summarize_confidence [OF s] by blast
  define analysis where "analysis =
     [(''riskLevel'', dict_get s ''riskLevel'' (PStr ''Unknown'')),
      (''confidence'', dict_get s ''confidence'' (PInt 0)),
      (''trajectory'', dict_get s ''trajectory'' (PStr ''Unknown'')),
      (''rockSize'', dict_get s ''rockSize'' (PStr ''Unknown'')),
      (''recommendations'',
          dict_get s ''recommendations''
            (PList [PStr ''Continue monitoring'', PStr ''Schedule inspection'']))]"
  have "map_of analysis ''confidence'' = Some (PInt n)"
    using sc by (simp add: analysis_def dict_get_def)
  then obtain final where f: "conclusion_analysis analysis = Inr final"
    using conclusion_analysis_confidence by blast
  show ?thesis
    using s f [unfolded analysis_def]
    by (simp add: process_video_and_summarize_def Let_def)
qed

text \<open>
  Claim C2. Whatever the text-generation collaborator answers (an exception, text that
  does not parse, or any parsed value, with or without a confidence of its own), the
  confidence of the final analysis is \<open>scale_confidence\<close> of the highest raw confidence
  over all detections (0 when there is none). The run does return an analysis on every
  prediction set whose detections have a class and a numeric confidence.
\<close>

theorem final_confidence_is_scaled_highest:
  assumes "\<forall>c\<in>set (raw_confidences preds). 0 \<le> c"
  shows "(\<forall>out. process_video_and_summarize (Inr preds) jl reply = Inr out \<longrightarrow>
            (\<exists>final n. map_of out ''analysis'' = Some (PDict final) \<and>
               scale_confidence (spec_highest_raw (raw_confidences preds)) = Inr n \<and>
               map_of final ''confidence'' = Some (PInt n)))
       \<and> (well_formed preds \<longrightarrow>
            (\<exists>out. process_video_and_summarize (Inr preds) jl reply = Inr out))"
proof (intro conjI allI impI)
  fix out
  assume "process_video_and_summarize (Inr preds) jl reply = Inr out"
  then obtain final h n where h: "scan_frames 0 preds = Inr h"
      and n: "scale_confidence h = Inr n"
      and a: "map_of out ''analysis'' = Some (PDict final)"
      and c: "map_of final ''confidence'' = Some (PInt n)"
    using pvs_confidence by blast
  have "h = spec_highest_raw (raw_confidences preds)"
    using scan_frames_Inr [OF h] fold_max_spec [OF assms] by simp
  then show "\<exists>final n. map_of out ''analysis'' = Some (PDict final) \<and>
               scale_confidence (spec_highest_raw (raw_confidences preds)) = Inr n \<and>
               map_of final ''confidence'' = Some (PInt n)"
    using a c n by blast
next
  assume "well_formed preds"
  then show "\<exists>out. process_video_and_summarize (Inr preds) jl reply = Inr out"
    by (rule pvs_total)
qed

theorem final_confidence_is_scaled_highest_witness:
  "\<exists>out final.
     process_video_and_summarize
       (Inr [(''frame_3'', [[(''class'', PStr ''rock''), (''confidence'', PFloat 0.75)],
                            [(''class'', PStr ''rock''), (''confidence'', PFloat 0.25)]]),
             (''frame_4'', [])])
       (\<lambda>s. Inr (PDict [(''riskLevel'', PStr ''Low''), (''confidence'', PInt 12)]))
       (Inr ''ok'') = Inr out
     \<and> map_of out ''analysis'' = Some (PDict final)
     \<and> map_of final ''confidence'' = Some (PInt 98)"
proof -
  let ?P = "[(''frame_3'', [[(''class'', PStr ''rock''), (''confidence'', PFloat 0.75)],
                            [(''class'', PStr ''rock''), (''confidence'', PFloat 0.25)]]),
             (''frame_4'', [])]"
  let ?J = "\<lambda>s::string. Inr (PDict [(''riskLevel'', PStr ''Low''), (''confidence'', PInt 12)])
              :: exn + pyval"
  let ?R = "Inr ''ok'' :: exn + string"
  have nn: "\<forall>c\<in>set (raw_confidences ?P). 0 \<le> c"
    by (simp add: raw_confidences_def conf_value_def dict_get_def)
  have wf: "well_formed ?P"
    by code_simp
  have "spec_highest_raw (raw_confidences ?P) = 0.75"
    by (simp add: raw_confidences_def conf_value_def dict_get_def spec_highest_raw_def)
  then have v: "scale_confidence (spec_highest_raw (raw_confidences ?P)) = Inr 98"
    by (simp only: scale_d075)
  note t = final_confidence_is_scaled_highest [OF nn, of ?J ?R]
  from t wf obtain out where out: "process_video_and_summarize (Inr ?P) ?J ?R = Inr out"
    by blast
  with t obtain final n where "map_of out ''analysis'' = Some (PDict final)"
      and "scale_confidence (spec_highest_raw (raw_confidences ?P)) = Inr n"
      and "map_of final ''confidence'' = Some (PInt n)"
    by blast
  with out v show ?thesis by auto
qed

text \<open>
  Claim C6 (as the code has it). When the collaborator fails, or its answer does not parse
  to a non-empty JSON object, \<open>summarize_with_gemini\<close> returns the default seed: risk
  level, rock size and trajectory are all Unknown, the confidence is the scaled highest
  raw confidence, and the recommendations are a list of exactly one text, not the empty
  list: the cross mark, "Gemini failed:" and the text of the exception that was caught.
  That exception is the collaborator's own when the call fails, the
  \<^verbatim>\<open>ValueError\<close> "Gemini returned invalid JSON" when the parsed answer is missing or
  falsy, and the \<^verbatim>\<open>TypeError\<close> of the item assignment when it is any other value that is
  not a dict. On a non-empty dict no seed is substituted.
\<close>

theorem fallback_seed:
  assumes "scan_frames 0 preds = Inr h"
  shows "\<exists>n. scale_confidence h = Inr n \<and>
     (\<forall>e. reply = Inl e \<longrightarrow>
        summarize_with_gemini jl reply preds = Inr (default_seed n (exn_text e))) \<and>
     (\<forall>t. reply = Inr t \<and> \<not> truthy (safe_json_loads jl (strip_seqs whitespace t)) \<longrightarrow>
        summarize_with_gemini jl reply preds =
          Inr (default_seed n ''Gemini returned invalid JSON'')) \<and>
     (\<forall>t. reply = Inr t \<and> truthy (safe_json_loads jl (strip_seqs whitespace t)) \<and>
           (\<forall>d. safe_json_loads jl (strip_seqs whitespace t) \<noteq> PDict d) \<longrightarrow>
        summarize_with_gemini jl reply preds =
          Inr (default_seed n
                 (exn_text (setitem_error (safe_json_loads jl (strip_seqs whitespace t)))))) \<and>
     (\<forall>t d. reply = Inr t \<and> safe_json_loads jl (strip_seqs whitespace t) = PDict d \<and> d \<noteq> [] \<longrightarrow>
        summarize_with_gemini jl reply preds = Inr (dict_set d ''confidence'' (PInt n))) \<and>
     (\<forall>msg. map_of (default_seed n msg) ''riskLevel'' = Some (PStr ''Unknown'') \<and>
            map_of (default_seed n msg) ''rockSize'' = Some (PStr ''Unknown'') \<and>
            map_of (default_seed n msg) ''trajectory'' = Some (PStr ''Unknown'') \<and>
            map_of (default_seed n msg) ''confidence'' = Some (PInt n) \<and>
            map_of (default_seed n msg) ''recommendations'' =
              Some (PList [PStr (cross_mark @ '' Gemini failed: '' @ msg)]))"
proof -
  have "0 \<le> h" using assms by (rule scan_frames_nonneg)
  then obtain n where n: "scale_confidence h = Inr n"
    using scale_confidence_nonneg by blast
  note c = summarize_cases [OF assms n, of reply _ jl]
  have "\<forall>msg. map_of (default_seed n msg) ''riskLevel'' = Some (PStr ''Unknown'') \<and>
            map_of (default_seed n msg) ''rockSize'' = Some (PStr ''Unknown'') \<and>
            map_of (default_seed n msg) ''trajectory'' = Some (PStr ''Unknown'') \<and>
            map_of (default_seed n msg) ''confidence'' = Some (PInt n) \<and>
            map_of (default_seed n msg) ''recommendations'' =
              Some (PList [PStr (cross_mark @ '' Gemini failed: '' @ msg)])"
    by (simp add: default_seed_def)
  then show ?thesis using n c by blast
qed

lemma strip_nbsp:
  "strip_seqs whitespace ([CHR 0xC2, CHR 0xA0] @ '' [1]'' @ [CHR 0xC2, CHR 0xA0, CHR 0x0A]) = ''[1]''"
  by code_simp

theorem fallback_seed_witness:
  "summarize_with_gemini
     (\<lambda>s. if s = ''[1]'' then Inr (PList [PInt 1]) else Inl (ValueError ''Expecting value''))
     (Inr ([CHR 0xC2, CHR 0xA0] @ '' [1]'' @ [CHR 0xC2, CHR 0xA0, CHR 0x0A]))
     [(''frame_0'', [[(''class'', PStr ''rock''), (''confidence'', PFloat 0.25)]])]
   = Inr [(''riskLevel'', PStr ''Unknown''),
          (''confidence'', PInt 25),
          (''rockSize'', PStr ''Unknown''),
          (''trajectory'', PStr ''Unknown''),
          (''recommendations'',
             PList [PStr (cross_mark @ '' Gemini failed: ''
                          @ ''list indices must be integers or slices, not str'')])]"
proof -
  let ?P = "[(''frame_0'', [[(''class'', PStr ''rock''), (''confidence'', PFloat 0.25)]])]"
  let ?J = "\<lambda>s::string. if s = ''[1]'' then Inr (PList [PInt 1])
                           else (Inl (ValueError ''Expecting value'') :: exn + pyval)"
  let ?t = "[CHR 0xC2, CHR 0xA0] @ '' [1]'' @ [CHR 0xC2, CHR 0xA0, CHR 0x0A]"
  have s: "scan_frames 0 ?P = Inr 0.25"
    by (simp add: scan_pred_def dict_get_def)
  have st: "strip_seqs whitespace ''[1]'' = ''[1]''" by code_simp
  have p: "safe_json_loads ?J (strip_seqs whitespace ?t) = PList [PInt 1]"
    unfolding strip_nbsp by (simp add: safe_json_loads_def st startswith_def)
  obtain n where n: "scale_confidence 0.25 = Inr n"
    and c: "\<forall>t. Inr ?t = (Inr t :: exn + string)
             \<and> truthy (safe_json_loads ?J (strip_seqs whitespace t)) \<and>
             (\<forall>d. safe_json_loads ?J (strip_seqs whitespace t) \<noteq> PDict d) \<longrightarrow>
          summarize_with_gemini ?J (Inr ?t) ?P =
            Inr (default_seed n
                   (exn_text (setitem_error (safe_json_loads ?J (strip_seqs whitespace t)))))"
    using fallback_seed [OF s, of "Inr ?t" ?J] by blast
  have "n = 25" using n by (simp only: scale_d025) simp
  moreover have "summarize_with_gemini ?J (Inr ?t) ?P =
            Inr (default_seed n
                   (exn_text (setitem_error (safe_json_loads ?J (strip_seqs whitespace ?t)))))"
    using c p by simp
  ultimately show ?thesis
    unfolding p by (simp add: default_seed_def setitem_error_def)
qed

text \<open>The claim as the specification words it (an empty list of recommendations) fails:
  on an answer that is not JSON the seed carries the failure message.\<close>

theorem fallback_seed_counterexample:
  "summarize_with_gemini (\<lambda>s. Inl (ValueError ''Expecting value'')) (Inr ''no JSON here'') [] =
     Inr [(''riskLevel'', PStr ''Unknown''),
          (''confidence'', PInt 0),
          (''rockSize'', PStr ''Unknown''),
          (''trajectory'', PStr ''Unknown''),
          (''recommendations'',
             PList [PStr (cross_mark @ '' Gemini failed: Gemini returned invalid JSON'')])]
   \<and> summarize_with_gemini (\<lambda>s. Inl (ValueError ''Expecting value'')) (Inr ''no JSON here'') [] \<noteq>
     Inr [(''riskLevel'', PStr ''Unknown''),
          (''confidence'', PInt 0),
          (''rockSize'', PStr ''Unknown''),
          (''trajectory'', PStr ''Unknown''),
          (''recommendations'', PList [])]"
  by (simp add: summarize_with_gemini_def summarize_try_def safe_json_loads_def
        scale_confidence_zero)

section \<open>Frame keys\<close>

lemma digit_char_inj: "d < 10 \<Longrightarrow> e < 10 \<Longrightarrow> digit_char d = digit_char e \<Longrightarrow> d = e"
proof -
  assume d: "d < 10" and e: "e < 10" and eq: "digit_char d = digit_char e"
  have "(of_char (digit_char d) :: nat) = of_char (digit_char e)" using eq by simp
  then show "d = e" using d e by (simp add: digit_char_def)
qed

lemma str_nat_unfold:
  "str_nat n = (if n < 10 then [digit_char n] else str_nat (n div 10) @ [digit_char (n mod 10)])"
  by (rule str_nat.simps)

lemma str_nat_nonempty: "str_nat n \<noteq> []"
  by (subst str_nat_unfold) simp

lemma str_nat_inj: "str_nat m = str_nat n \<Longrightarrow> m = n"
proof (induction m arbitrary: n rule: str_nat.induct)
  case (1 m)
  show ?case
  proof (cases "m < 10")
    case m: True
    show ?thesis
    proof (cases "n < 10")
      case True
      have "str_nat m = [digit_char m]" using m by (subst str_nat_unfold) simp
      moreover have "str_nat n = [digit_char n]" using True by (subst str_nat_unfold) simp
      ultimately show ?thesis using "1.prems" m True digit_char_inj by simp
    next
      case False
      have "str_nat m = [digit_char m]" using m by (subst str_nat_unfold) simp
      moreover have "str_nat n = str_nat (n div 10) @ [digit_char (n mod 10)]"
        using False by (subst str_nat_unfold) simp
      ultimately show ?thesis using "1.prems" str_nat_nonempty [of "n div 10"] by simp
    qed
  next
    case m: False
    have sm: "str_nat m = str_nat (m div 10) @ [digit_char (m mod 10)]"
      using m by (subst str_nat_unfold) simp
    show ?thesis
    proof (cases "n < 10")
      case True
      have "str_nat n = [digit_char n]" using True by (subst str_nat_unfold) simp
      then show ?thesis using "1.prems" sm str_nat_nonempty [of "m div 10"] by simp
    next
      case False
      have sn: "str_nat n = str_nat (n div 10) @ [digit_char (n mod 10)]"
        using False by (subst str_nat_unfold) simp
      have a: "str_nat (m div 10) = str_nat (n div 10)"
        and b: "digit_char (m mod 10) = digit_char (n mod 10)"
        using "1.prems" sm sn by simp_all
      have "m div 10 = n div 10" using "1.IH" [OF m a] .
      moreover have "m mod 10 = n mod 10" using digit_char_inj [OF _ _ b] by simp
      ultimately show ?thesis by (metis div_mult_mod_eq)
    qed
  qed
qed

lemma frame_key_inj: "frame_key i = frame_key j \<Longrightarrow> i = j"
  by (simp add: frame_key_def str_nat_inj)

lemma dict_set_fresh: "k \<notin> fst ` set d \<Longrightarrow> dict_set d k v = d @ [(k, v)]"
  by (induction d) auto


section \<open>The sampling loop\<close>

text \<open>The tasks that the loop submits, from any state of its counters: the frames at
  the positions whose count is a multiple of the interval, numbered consecutively.\<close>

lemma read_loop_general:
  assumes "iv \<noteq> 0"
  shows "read_loop iv frames fc sc futs =
           Inr (futs @
                zip [sc..<sc + length (filter (\<lambda>(k, f). int k mod iv = 0)
                                          (zip [fc..<fc + length frames] frames))]
                    (map snd (filter (\<lambda>(k, f). int k mod iv = 0)
                                (zip [fc..<fc + length frames] frames))))"
  using assms
proof (induction frames arbitrary: fc sc futs)
  case Nil
  then show ?case by simp
next
  case (Cons f fs)
  have upt_head: "[i..<i + Suc n] = i # [Suc i..<Suc i + n]" for i n :: nat
  proof -
    have "i < i + Suc n" by simp
    then have "[i..<i + Suc n] = i # [Suc i..<i + Suc n]" by (rule upt_conv_Cons)
    then show ?thesis by (simp del: upt_Suc)
  qed
  have upt: "[fc..<fc + length (f # fs)] = fc # [Suc fc..<Suc fc + length fs]"
    using upt_head [of fc "length fs"] by (simp del: upt_Suc)
  define sel where "sel = filter (\<lambda>(k, f). int k mod iv = 0) (zip [Suc fc..<Suc fc + length fs] fs)"
  show ?case
  proof (cases "int fc mod iv = 0")
    case True
    have "read_loop iv (f # fs) fc sc futs = read_loop iv fs (Suc fc) (Suc sc) (futs @ [(sc, f)])"
      using True Cons.prems by simp
    also have "\<dots> = Inr ((futs @ [(sc, f)]) @ zip [Suc sc..<Suc sc + length sel] (map snd sel))"
      unfolding sel_def by (rule Cons.IH [OF Cons.prems])
    also have "(futs @ [(sc, f)]) @ zip [Suc sc..<Suc sc + length sel] (map snd sel)
             = futs @ zip [sc..<sc + Suc (length sel)] (f # map snd sel)"
      unfolding upt_head [of sc] by simp
    finally show ?thesis
      unfolding upt using True by (simp add: sel_def del: upt_Suc)
  next
    case False
    have "read_loop iv (f # fs) fc sc futs = read_loop iv fs (Suc fc) sc futs"
      using False Cons.prems by simp
    also have "\<dots> = Inr (futs @ zip [sc..<sc + length sel] (map snd sel))"
      unfolding sel_def by (rule Cons.IH [OF Cons.prems])
    finally show ?thesis
      unfolding upt using False by (simp add: sel_def del: upt_Suc)
  qed
qed

lemma zip_upt_nth: "zip [0..<length xs] xs = map (\<lambda>k. (k, xs ! k)) [0..<length xs]"
  by (rule nth_equalityI) simp_all

lemma sampled_positions:
  "map snd (filter (\<lambda>(k, f). P k) (zip [0..<length xs] xs))
     = map (\<lambda>k. xs ! k) (filter P [0..<length xs])"
  unfolding zip_upt_nth by (simp add: filter_map comp_def)

lemma read_loop_sampled:
  assumes "iv \<noteq> 0"
  shows "\<exists>futs. read_loop iv frames 0 0 [] = Inr futs \<and>
           map fst futs = [0..<length futs] \<and>
           map snd futs = map (\<lambda>k. frames ! k) (filter (\<lambda>k. int k mod iv = 0) [0..<length frames])"
proof -
  define sel where
    "sel = map snd (filter (\<lambda>(k, f). int k mod iv = 0) (zip [0..<length frames] frames))"
  have "read_loop iv frames 0 0 [] = Inr (zip [0..<length sel] sel)"
    using read_loop_general [OF assms, of frames 0 0 "[]"] by (simp add: sel_def)
  moreover have "map fst (zip [0..<length sel] sel) = [0..<length (zip [0..<length sel] sel)]"
    by simp
  moreover have "map snd (zip [0..<length sel] sel) = sel"
    by simp
  moreover have "sel = map (\<lambda>k. frames ! k) (filter (\<lambda>k. int k mod iv = 0) [0..<length frames])"
    unfolding sel_def by (rule sampled_positions)
  ultimately show ?thesis by metis
qed

lemma read_loop_zero: "read_loop 0 (f # fs) fc sc futs = Inl (ZeroDivisionError ''integer modulo by zero'')"
  by simp

lemma read_loop_ids:
  assumes "read_loop iv frames 0 0 [] = Inr futs"
  shows "map fst futs = [0..<length futs]"
proof (cases "iv = 0")
  case True
  then show ?thesis using assms by (cases frames) simp_all
next
  case False
  then show ?thesis using read_loop_sampled [OF False, of frames] assms by auto
qed

lemma to_double_rel_error:
  assumes "1 \<le> x" and "\<not> dbl_overflows x"
  shows "\<bar>to_double x - x\<bar> \<le> x / 2 ^ 53"
proof -
  have x: "0 < x" using assms(1) by simp
  define e where "e = \<lfloor>log 2 x\<rfloor>"
  have b: "2 powi e \<le> x" "x < 2 powi (e + 1)"
    using binade_exists [OF x] by (simp_all add: e_def)
  have e0: "0 \<le> e" unfolding e_def using assms(1) by simp
  have "x < 2 ^ 1024" using assms(2) x by (simp add: dbl_overflows_def)
  then have "(2::real) powi e < 2 powi 1024" using b(1) by simp
  then have e1: "e < 1024"
  proof (rule contrapos_pp)
    assume "\<not> e < 1024"
    then have "(2::real) powi 1024 \<le> 2 powi e" by (intro power_int_increasing) simp_all
    then show "\<not> (2::real) powi e < 2 powi 1024" by simp
  qed
  have f: "to_double x = of_int (py_round (x / 2 powi (e - 52))) * 2 powi (e - 52)"
    using b x e0 e1 by (intro to_double_eval) simp_all
  define u where "u = (2::real) powi (e - 52)"
  have upos: "0 < u" by (simp add: u_def)
  have "to_double x - x = (of_int (py_round (x / u)) - x / u) * u"
    unfolding f u_def [symmetric] using upos by (simp add: algebra_simps)
  then have "\<bar>to_double x - x\<bar> = \<bar>of_int (py_round (x / u)) - x / u\<bar> * u"
    using upos by (simp add: abs_mult)
  also have "\<dots> \<le> 1 / 2 * u"
    using py_round_nearest [of "x / u"] upos by (intro mult_right_mono) simp_all
  also have "1 / 2 * u = 2 powi e / 2 ^ 53"
  proof -
    have "(2::real) powi (e - 52) = 2 powi e / 2 powi 52" by (rule power_int_diff) simp
    then show ?thesis by (simp add: u_def)
  qed
  also have "\<dots> \<le> x / 2 ^ 53" using b(1) by (simp add: divide_right_mono)
  finally show ?thesis .
qed

lemma frame_interval_eval:
  "\<not> dbl_overflows (fps * interval_sec) \<Longrightarrow> to_double (fps * interval_sec) = p \<Longrightarrow>
     frame_interval fps interval_sec = Inr (py_int p)"
  by (simp add: frame_interval_def)

lemma frame_interval_Inr:
  "frame_interval fps interval_sec = Inr stride \<Longrightarrow>
     \<not> dbl_overflows (fps * interval_sec) \<and> stride = py_int (to_double (fps * interval_sec))"
  by (auto simp: frame_interval_def split: if_splits)

text \<open>Two products whose rounding to a double decides the stride: 30 frames per second
  with an interval of 0.7 seconds give 21 (the exact product of the two doubles is just
  below 21), and 3 frames per second with an interval of 0.3333333333333333 seconds
  give 1.\<close>

lemma frame_interval_30_07:
  "frame_interval 30 (3152519739159347 / 4503599627370496) = Inr 21"
proof -
  have "to_double (30 * (3152519739159347 / 4503599627370496)) = 21"
    using to_double_eval [of 4 "30 * (3152519739159347 / 4503599627370496)"]
    by (simp add: py_round_def)
  moreover have "\<not> dbl_overflows (30 * (3152519739159347 / 4503599627370496))"
    by (simp add: dbl_overflows_def)
  ultimately have "frame_interval 30 (3152519739159347 / 4503599627370496) = Inr (py_int 21)"
    by (rule frame_interval_eval [rotated])
  then show ?thesis by (simp add: py_int_def)
qed

lemma frame_interval_3_third:
  "frame_interval 3 (6004799503160661 / 18014398509481984) = Inr 1"
proof -
  have "to_double (3 * (6004799503160661 / 18014398509481984)) = 1"
    using to_double_eval [of "- 1" "3 * (6004799503160661 / 18014398509481984)"]
    by (simp add: py_round_def)
  moreover have "\<not> dbl_overflows (3 * (6004799503160661 / 18014398509481984))"
    by (simp add: dbl_overflows_def)
  ultimately have "frame_interval 3 (6004799503160661 / 18014398509481984) = Inr (py_int 1)"
    by (rule frame_interval_eval [rotated])
  then show ?thesis by (simp add: py_int_def)
qed

text \<open>
  Claim C9 (as the code has it). The stride is \<open>int(fps * interval_sec)\<close>: the product
  as a double, truncated towards zero, not rounded. For a non-negative product it is the
  largest integer not above the double product, which itself is the product of the
  frame rate and the interval up to one rounding (a relative error of at most
  \<open>1 / 2 ^ 53\<close>). Whenever that stride is not zero, the loop submits exactly the decoded
  frames whose position is a multiple of the stride, in order, and numbers them
  0, 1, 2, ... consecutively.
\<close>

theorem stride_and_sampling:
  "(frame_interval fps interval_sec = Inr stride \<and> 0 \<le> fps * interval_sec \<longrightarrow>
        of_int stride \<le> to_double (fps * interval_sec)
        \<and> to_double (fps * interval_sec) < of_int stride + 1
        \<and> (1 \<le> fps * interval_sec \<longrightarrow>
              fps * interval_sec * (1 - 1 / 2 ^ 53) - 1 < of_int stride
              \<and> of_int stride \<le> fps * interval_sec * (1 + 1 / 2 ^ 53)))
   \<and> (frame_interval fps interval_sec = Inr stride \<and> stride \<noteq> 0 \<longrightarrow>
        (\<exists>futs. read_loop stride frames 0 0 [] = Inr futs
           \<and> map fst futs = [0..<length futs]
           \<and> map snd futs =
               map (\<lambda>k. frames ! k) (filter (\<lambda>k. int k mod stride = 0) [0..<length frames])))"
proof (intro conjI impI)
  assume a: "frame_interval fps interval_sec = Inr stride \<and> 0 \<le> fps * interval_sec"
  then have no: "\<not> dbl_overflows (fps * interval_sec)"
      and s: "stride = py_int (to_double (fps * interval_sec))"
    using frame_interval_Inr by blast+
  have "0 \<le> to_double (fps * interval_sec)" using a by (intro to_double_nonneg) simp
  then have tr: "of_int stride \<le> to_double (fps * interval_sec)
        \<and> to_double (fps * interval_sec) < of_int stride + 1"
    unfolding s by (rule py_int_trunc)
  then show "of_int stride \<le> to_double (fps * interval_sec)"
    and "to_double (fps * interval_sec) < of_int stride + 1" by simp_all
  assume "1 \<le> fps * interval_sec"
  then have "\<bar>to_double (fps * interval_sec) - fps * interval_sec\<bar> \<le> fps * interval_sec / 2 ^ 53"
    using no by (rule to_double_rel_error)
  then show "fps * interval_sec * (1 - 1 / 2 ^ 53) - 1 < of_int stride"
    and "of_int stride \<le> fps * interval_sec * (1 + 1 / 2 ^ 53)"
    using tr by (simp_all add: algebra_simps abs_if split: if_splits)
next
  assume "frame_interval fps interval_sec = Inr stride \<and> stride \<noteq> 0"
  then show "\<exists>futs. read_loop stride frames 0 0 [] = Inr futs
           \<and> map fst futs = [0..<length futs]
           \<and> map snd futs =
               map (\<lambda>k. frames ! k) (filter (\<lambda>k. int k mod stride = 0) [0..<length frames])"
    using read_loop_sampled [of stride frames] by simp
qed

lemma frame_interval_2_5: "frame_interval 2.5 1 = Inr 2"
proof -
  have "to_double (2.5 * 1) = 2.5"
    using to_double_eval [of 1 "2.5 * 1"] by (simp add: py_round_def)
  moreover have "\<not> dbl_overflows (2.5 * 1)" by (simp add: dbl_overflows_def)
  ultimately have "frame_interval 2.5 1 = Inr (py_int 2.5)" by (rule frame_interval_eval [rotated])
  then show ?thesis by (simp add: py_int_def)
qed

theorem stride_and_sampling_witness:
  "frame_interval 2.5 1 = Inr 2
   \<and> (\<exists>futs. read_loop 2 [10, 11, 12, 13, 14 :: nat] 0 0 [] = Inr futs
         \<and> map fst futs = [0..<length futs]
         \<and> map snd futs = [10, 12, 14])
   \<and> 2.5 * 1 * (1 - 1 / 2 ^ 53) - 1 < (2::real)"
proof -
  have sel: "map (\<lambda>k. [10, 11, 12, 13, 14 :: nat] ! k)
               (filter (\<lambda>k. int k mod 2 = 0) [0..<length [10, 11, 12, 13, 14 :: nat]])
             = [10, 12, 14]"
    by code_simp
  have nz: "(2::int) \<noteq> 0" by simp
  have p: "(0::real) \<le> 2.5 * 1" "(1::real) \<le> 2.5 * 1" by simp_all
  note t = stride_and_sampling [of "2.5" 1 2 "[10, 11, 12, 13, 14 :: nat]"]
  have "\<exists>futs. read_loop 2 [10, 11, 12, 13, 14 :: nat] 0 0 [] = Inr futs
         \<and> map fst futs = [0..<length futs]
         \<and> map snd futs = [10, 12, 14]"
    using t frame_interval_2_5 nz sel by metis
  moreover have "2.5 * 1 * (1 - 1 / 2 ^ 53) - 1 < real_of_int 2"
    using t frame_interval_2_5 p by blast
  ultimately show ?thesis using frame_interval_2_5 by simp
qed

text \<open>At 23.75 frames per second and an interval of one second the stride is 23, where
  rounding the product gives 24; at the double that 29.97 denotes and an interval of
  2 seconds it is 59, where rounding gives 60.\<close>

theorem stride_round_counterexample:
  "frame_interval 23.75 1 = Inr 23 \<and> py_round (23.75 * 1) = 24 \<and> round (23.75 * 1 :: real) = 24
   \<and> frame_interval (to_double 29.97) 2 = Inr 59 \<and> py_round (to_double 29.97 * 2) = 60"
proof -
  have a: "frame_interval 23.75 1 = Inr 23"
  proof -
    have "to_double (23.75 * 1) = 23.75"
      using to_double_eval [of 4 "23.75 * 1"] by (simp add: py_round_def)
    moreover have "\<not> dbl_overflows (23.75 * 1)" by (simp add: dbl_overflows_def)
    ultimately have "frame_interval 23.75 1 = Inr (py_int 23.75)"
      by (rule frame_interval_eval [rotated])
    then show ?thesis by (simp add: py_int_def)
  qed
  have l: "to_double 29.97 = 1054475631502295 / 35184372088832"
    using to_double_eval [of 4 "29.97"] by (simp add: py_round_def)
  have b: "frame_interval (1054475631502295 / 35184372088832) 2 = Inr 59"
  proof -
    have "to_double (1054475631502295 / 35184372088832 * 2) = 1054475631502295 / 17592186044416"
      using to_double_eval [of 5 "1054475631502295 / 35184372088832 * 2"]
      by (simp add: py_round_def)
    moreover have "\<not> dbl_overflows (1054475631502295 / 35184372088832 * 2)"
      by (simp add: dbl_overflows_def)
    ultimately have "frame_interval (1054475631502295 / 35184372088832) 2
        = Inr (py_int (1054475631502295 / 17592186044416))"
      by (rule frame_interval_eval [rotated])
    then show ?thesis by (simp add: py_int_def)
  qed
  have c: "py_round (1054475631502295 / 35184372088832 * 2) = 60"
    by (simp add: py_round_def)
  show ?thesis unfolding l using a b c by (simp add: py_round_def round_def)
qed

text \<open>
  Claim C5 (the code at a frame rate of zero). With a reported frame rate of 0 the stride
  is 0, not 1, and on a video that delivers at least one frame \<open>process_video\<close> raises
  \<^verbatim>\<open>ZeroDivisionError\<close> at the first \<^verbatim>\<open>frame_count % frame_interval\<close>.
\<close>

theorem zero_frame_rate_raises:
  "frame_interval 0 interval_sec = Inr 0
   \<and> process_video True 0 (frame # rest) gateway conf_threshold interval_sec as_completed
       = Inl (ZeroDivisionError ''integer modulo by zero'')"
  by (simp add: process_video_def frame_interval_def dbl_overflows_def to_double_zero py_int_def)

section \<open>Collecting the results\<close>

lemma process_frame_id: "process_frame gw thr i f = Inr (j, ps) \<Longrightarrow> j = i"
  by (auto simp: process_frame_def split: sum.splits)

lemma process_frame_gateway_fails: "gw f = Inl e \<Longrightarrow> process_frame gw thr i f = Inl e"
  by (simp add: process_frame_def)


lemma collect_Inl:
  "collect gw thr xs acc = Inl e \<Longrightarrow> \<exists>t\<in>set xs. process_frame gw thr (fst t) (snd t) = Inl e"
proof (induction xs arbitrary: acc)
  case Nil
  then show ?case by simp
next
  case (Cons x xs)
  obtain fid frame where x: "x = (fid, frame)" by (cases x)
  show ?case
  proof (cases "process_frame gw thr fid frame")
    case (Inl e')
    then show ?thesis using Cons.prems x by simp
  next
    case (Inr r)
    obtain j ps where r: "r = (j, ps)" by (cases r)
    have "collect gw thr xs (dict_set acc (frame_key j) ps) = Inl e"
      using Cons.prems x Inr r by simp
    then show ?thesis using Cons.IH by auto
  qed
qed

lemma collect_fails:
  "\<exists>t\<in>set xs. isl (process_frame gw thr (fst t) (snd t)) \<Longrightarrow> isl (collect gw thr xs acc)"
proof (induction xs arbitrary: acc)
  case Nil
  then show ?case by simp
next
  case (Cons x xs)
  obtain fid frame where x: "x = (fid, frame)" by (cases x)
  show ?case
  proof (cases "process_frame gw thr fid frame")
    case (Inl e')
    then show ?thesis using x by simp
  next
    case (Inr r)
    obtain j ps where r: "r = (j, ps)" by (cases r)
    have "\<exists>t\<in>set xs. isl (process_frame gw thr (fst t) (snd t))"
      using Cons.prems x Inr by auto
    then have "isl (collect gw thr xs (dict_set acc (frame_key j) ps))"
      by (rule Cons.IH)
    then show ?thesis using x Inr r by simp
  qed
qed

lemma collect_ok:
  assumes "\<forall>t\<in>set xs. \<not> isl (process_frame gw thr (fst t) (snd t))"
      and "distinct (map fst xs)"
      and "\<forall>t\<in>set xs. frame_key (fst t) \<notin> fst ` set acc"
  shows "collect gw thr xs acc =
           Inr (acc @ map (\<lambda>t. (frame_key (fst t),
                                 snd (projr (process_frame gw thr (fst t) (snd t))))) xs)"
  using assms
proof (induction xs arbitrary: acc)
  case Nil
  then show ?case by simp
next
  case (Cons x xs)
  obtain fid frame where x: "x = (fid, frame)" by (cases x)
  obtain r where r: "process_frame gw thr fid frame = Inr r"
    using Cons.prems(1) x by (cases "process_frame gw thr fid frame") auto
  obtain j ps where jp: "r = (j, ps)" by (cases r)
  have pf: "process_frame gw thr fid frame = Inr (fid, ps)"
    using r jp process_frame_id [of gw thr fid frame j ps] by simp
  have fresh: "frame_key fid \<notin> fst ` set acc" using Cons.prems(3) x by simp
  have acc': "dict_set acc (frame_key fid) ps = acc @ [(frame_key fid, ps)]"
    using fresh by (rule dict_set_fresh)
  have p1: "\<forall>t\<in>set xs. \<not> isl (process_frame gw thr (fst t) (snd t))"
    using Cons.prems(1) by simp
  have p2: "distinct (map fst xs)" using Cons.prems(2) by simp
  have notin: "fid \<notin> fst ` set xs" using Cons.prems(2) x by simp
  have p3: "\<forall>t\<in>set xs. frame_key (fst t) \<notin> fst ` set (acc @ [(frame_key fid, ps)])"
  proof
    fix t
    assume t: "t \<in> set xs"
    have "fst t \<noteq> fid" using notin t by blast
    then have "frame_key (fst t) \<noteq> frame_key fid" using frame_key_inj by blast
    moreover have "frame_key (fst t) \<notin> fst ` set acc" using Cons.prems(3) t by simp
    ultimately show "frame_key (fst t) \<notin> fst ` set (acc @ [(frame_key fid, ps)])" by auto
  qed
  have step: "collect gw thr (x # xs) acc = collect gw thr xs (acc @ [(frame_key fid, ps)])"
    unfolding x by (simp only: collect.simps pf sum.case prod.case acc')
  have "collect gw thr xs (acc @ [(frame_key fid, ps)]) =
      Inr ((acc @ [(frame_key fid, ps)]) @
           map (\<lambda>t. (frame_key (fst t), snd (projr (process_frame gw thr (fst t) (snd t))))) xs)"
    by (rule Cons.IH [OF p1 p2 p3])
  also have "(acc @ [(frame_key fid, ps)]) @
           map (\<lambda>t. (frame_key (fst t), snd (projr (process_frame gw thr (fst t) (snd t))))) xs
        = acc @ map (\<lambda>t. (frame_key (fst t), snd (projr (process_frame gw thr (fst t) (snd t)))))
                  (x # xs)"
    unfolding x by (simp add: pf)
  finally show ?case unfolding step .
qed

lemma process_video_opened:
  "frame_interval fps isec = Inr stride \<Longrightarrow> read_loop stride frames 0 0 [] = Inr futs \<Longrightarrow>
   process_video True fps frames gw thr isec sched = collect gw thr (sched futs) []"
  by (simp add: process_video_def)

lemma frame_interval_1_1: "frame_interval 1 1 = Inr 1"
proof -
  have "to_double (1 * 1) = 1"
    using to_double_eval [of 0 "1 * 1"] by (simp add: py_round_def)
  moreover have "\<not> dbl_overflows (1 * 1)" by (simp add: dbl_overflows_def)
  ultimately have "frame_interval 1 1 = Inr (py_int 1)" by (rule frame_interval_eval [rotated])
  then show ?thesis by (simp add: py_int_def)
qed

text \<open>
  Claim C1 (as the code has it). A failing frame is not isolated: if the gateway call
  fails for any sampled frame, \<open>process_video\<close> raises, in every order of completion, and
  returns no prediction set at all. The exception it raises is that of a failed frame
  task, and it returns a prediction set exactly when no frame task fails.
\<close>

theorem frame_failure_aborts_batch:
  assumes "frame_interval fps interval_sec = Inr stride"
      and "read_loop stride frames 0 0 [] = Inr futures"
      and "mset (as_completed futures) = mset futures"
  shows "((\<exists>t\<in>set futures. isl (gateway (snd t))) \<longrightarrow>
            isl (process_video True fps frames gateway conf_threshold interval_sec as_completed))
       \<and> (\<forall>e. process_video True fps frames gateway conf_threshold interval_sec as_completed = Inl e
              \<longrightarrow> (\<exists>t\<in>set futures. process_frame gateway conf_threshold (fst t) (snd t) = Inl e))
       \<and> ((\<forall>t\<in>set futures. \<not> isl (process_frame gateway conf_threshold (fst t) (snd t))) \<longrightarrow>
            (\<exists>all_predictions.
               process_video True fps frames gateway conf_threshold interval_sec as_completed
                 = Inr all_predictions))"
proof -
  have pv: "process_video True fps frames gateway conf_threshold interval_sec as_completed
              = collect gateway conf_threshold (as_completed futures) []"
    using assms(1,2) by (rule process_video_opened)
  have st: "set (as_completed futures) = set futures"
    using assms(3) by (rule mset_eq_setD)
  have a: "isl (process_video True fps frames gateway conf_threshold interval_sec as_completed)"
    if "\<exists>t\<in>set futures. isl (gateway (snd t))"
  proof -
    from that obtain t where t: "t \<in> set futures" and "isl (gateway (snd t))" by blast
    then obtain e where "gateway (snd t) = Inl e" by (cases "gateway (snd t)") auto
    then have "process_frame gateway conf_threshold (fst t) (snd t) = Inl e"
      by (rule process_frame_gateway_fails)
    then have "isl (process_frame gateway conf_threshold (fst t) (snd t))"
      by simp
    with t st have "\<exists>t\<in>set (as_completed futures).
                 isl (process_frame gateway conf_threshold (fst t) (snd t))"
      by blast
    then show ?thesis unfolding pv by (rule collect_fails)
  qed
  have b: "\<exists>t\<in>set futures. process_frame gateway conf_threshold (fst t) (snd t) = Inl e"
    if "process_video True fps frames gateway conf_threshold interval_sec as_completed = Inl e" for e
    using collect_Inl [of gateway conf_threshold "as_completed futures" "[]" e] that st
    unfolding pv by simp
  have c: "\<exists>all_predictions.
             process_video True fps frames gateway conf_threshold interval_sec as_completed
               = Inr all_predictions"
    if ok: "\<forall>t\<in>set futures. \<not> isl (process_frame gateway conf_threshold (fst t) (snd t))"
  proof (cases "collect gateway conf_threshold (as_completed futures) []")
    case (Inl e)
    then obtain t where "t \<in> set futures"
        and "process_frame gateway conf_threshold (fst t) (snd t) = Inl e"
      using collect_Inl [of gateway conf_threshold "as_completed futures" "[]" e] st by auto
    then show ?thesis using ok by auto
  next
    case (Inr r)
    then show ?thesis unfolding pv by simp
  qed
  show ?thesis using a b c by blast
qed

theorem frame_failure_aborts_batch_witness:
  "isl (process_video True 1 [0, 1, 2 :: nat]
          (\<lambda>f. if f = 1 then Inl (CollaboratorError ''connection reset'') else Inr [])
          0.5 1 rev)"
proof -
  let ?gw = "\<lambda>f::nat. if f = 1 then Inl (CollaboratorError ''connection reset'')
                        else (Inr [] :: exn + dict list)"
  have r: "read_loop 1 [0, 1, 2 :: nat] 0 0 [] = Inr [(0, 0), (1, 1), (2, 2)]"
    by simp
  have m: "mset (rev [(0, 0), (1, 1), (2 :: nat, 2 :: nat)]) = mset [(0, 0), (1, 1), (2, 2)]"
    by simp
  have f: "\<exists>t\<in>set [(0, 0), (1, 1), (2 :: nat, 2 :: nat)]. isl (?gw (snd t))"
    by simp
  show ?thesis
    using frame_failure_aborts_batch
            [where as_completed = rev and gateway = ?gw and conf_threshold = "0.5",
             OF frame_interval_1_1 r m] f
    by blast
qed

text \<open>Three frames, the gateway failing on the second: the run ends in that exception; it
  does not return the three entries with an empty list for the failed frame.\<close>

theorem frame_failure_counterexample:
  "process_video True 1 [0, 1, 2 :: nat]
     (\<lambda>f. if f = 1 then Inl (CollaboratorError ''connection reset'') else Inr [])
     0.5 1 id
     = Inl (CollaboratorError ''connection reset'')
   \<and> process_video True 1 [0, 1, 2 :: nat]
     (\<lambda>f. if f = 1 then Inl (CollaboratorError ''connection reset'') else Inr [])
     0.5 1 id
     \<noteq> Inr [(''frame_0'', []), (''frame_1'', []), (''frame_2'', [])]"
  by (simp add: process_video_def frame_interval_1_1 process_frame_def)

text \<open>
  Claim C8 (as the code has it). When no frame task fails, for \<open>n\<close> sampled frames and
  every order of completion the returned dictionary has exactly the \<open>n\<close> keys
  \<^verbatim>\<open>frame_0\<close> ... \<^verbatim>\<open>frame_{n-1}\<close>, each once, and each key holds the filtered
  predictions of its own frame. The keys are inserted, and so iterated, in the order in
  which the tasks complete, not in the order of the frame numbers.
\<close>

theorem prediction_keys:
  assumes "frame_interval fps interval_sec = Inr stride"
      and "read_loop stride frames 0 0 [] = Inr futures"
      and "mset (as_completed futures) = mset futures"
      and "\<forall>t\<in>set futures. \<not> isl (process_frame gateway conf_threshold (fst t) (snd t))"
  shows "\<exists>all_predictions.
           process_video True fps frames gateway conf_threshold interval_sec as_completed
             = Inr all_predictions
         \<and> map fst all_predictions = map (\<lambda>t. frame_key (fst t)) (as_completed futures)
         \<and> distinct (map fst all_predictions)
         \<and> set (map fst all_predictions) = frame_key ` {0..<length futures}
         \<and> length all_predictions = length futures
         \<and> (\<forall>t\<in>set futures. \<exists>ps.
               process_frame gateway conf_threshold (fst t) (snd t) = Inr (fst t, ps)
               \<and> map_of all_predictions (frame_key (fst t)) = Some ps)"
proof -
  let ?res = "\<lambda>t. snd (projr (process_frame gateway conf_threshold (fst t) (snd t)))"
  let ?all = "map (\<lambda>t. (frame_key (fst t), ?res t)) (as_completed futures)"
  have pv: "process_video True fps frames gateway conf_threshold interval_sec as_completed
              = collect gateway conf_threshold (as_completed futures) []"
    using assms(1,2) by (rule process_video_opened)
  have st: "set (as_completed futures) = set futures"
    using assms(3) by (rule mset_eq_setD)
  have ids: "map fst futures = [0..<length futures]"
    using assms(2) by (rule read_loop_ids)
  have "mset (map fst (as_completed futures)) = mset (map fst futures)"
    using assms(3) by simp
  moreover have "distinct (map fst futures)" unfolding ids by simp
  ultimately have dist: "distinct (map fst (as_completed futures))"
    using mset_eq_imp_distinct_iff by blast
  have ok: "\<forall>t\<in>set (as_completed futures).
              \<not> isl (process_frame gateway conf_threshold (fst t) (snd t))"
    using assms(4) st by simp
  have run: "collect gateway conf_threshold (as_completed futures) [] = Inr ([] @ ?all)"
    by (rule collect_ok [OF ok dist]) simp
  have keys: "map fst ?all = map (\<lambda>t. frame_key (fst t)) (as_completed futures)"
    by (simp add: comp_def)
  have inj: "inj frame_key" by (rule injI) (rule frame_key_inj)
  have dk: "distinct (map fst ?all)"
  proof -
    have ij: "inj_on frame_key (set (map fst (as_completed futures)))"
      using inj by (rule inj_on_subset) simp
    have "distinct (map frame_key (map fst (as_completed futures)))"
      by (rule distinct_map [THEN iffD2, OF conjI [OF dist ij]])
    then show ?thesis by (simp add: comp_def)
  qed
  have sk: "set (map fst ?all) = frame_key ` {0..<length futures}"
  proof -
    have "set (map fst ?all) = (\<lambda>t. frame_key (fst t)) ` set (as_completed futures)"
      unfolding keys by (rule set_map)
    also have "\<dots> = frame_key ` fst ` set (as_completed futures)"
      by (simp only: image_image)
    also have "fst ` set (as_completed futures) = set (map fst futures)"
      unfolding st by simp
    also have "\<dots> = {0..<length futures}" unfolding ids by simp
    finally show ?thesis .
  qed
  have len: "length ?all = length futures"
    using mset_eq_length [OF assms(3)] by simp
  have each: "\<exists>ps. process_frame gateway conf_threshold (fst t) (snd t) = Inr (fst t, ps)
               \<and> map_of ?all (frame_key (fst t)) = Some ps" if t: "t \<in> set futures" for t
  proof -
    obtain r where r: "process_frame gateway conf_threshold (fst t) (snd t) = Inr r"
      using assms(4) t by (cases "process_frame gateway conf_threshold (fst t) (snd t)") auto
    obtain j ps where jp: "r = (j, ps)" by (cases r)
    have pf: "process_frame gateway conf_threshold (fst t) (snd t) = Inr (fst t, ps)"
      using r jp process_frame_id [of gateway conf_threshold "fst t" "snd t" j ps] by simp
    have "t \<in> set (as_completed futures)" using t st by simp
    then have "(frame_key (fst t), ?res t) \<in> set ?all"
      unfolding set_map by (rule image_eqI [OF refl])
    then have "map_of ?all (frame_key (fst t)) = Some (?res t)"
      using dk by (rule map_of_is_SomeI [rotated])
    then show ?thesis using pf by simp
  qed
  have pv': "process_video True fps frames gateway conf_threshold interval_sec as_completed
               = Inr ?all"
    unfolding pv run by simp
  show ?thesis
    by (rule exI [of _ ?all]) (intro conjI ballI pv' keys dk sk len each)
qed

theorem prediction_keys_witness:
  "\<exists>all_predictions.
      process_video True 1 [0, 1 :: nat]
        (\<lambda>f. Inr [[(''confidence'', PFloat 0.5), (''points'', PList [])]]) 0.5 1 rev
        = Inr all_predictions
      \<and> map fst all_predictions = [frame_key 1, frame_key 0]
      \<and> distinct (map fst all_predictions)
      \<and> length all_predictions = 2"
proof -
  let ?gw = "\<lambda>f::nat. Inr [[(''confidence'', PFloat 0.5), (''points'', PList [])]]
               :: exn + dict list"
  have r: "read_loop 1 [0, 1 :: nat] 0 0 [] = Inr [(0, 0), (1, 1)]"
    by simp
  have m: "mset (rev [(0, 0), (1 :: nat, 1 :: nat)]) = mset [(0, 0), (1, 1)]"
    by simp
  have ok: "\<forall>t\<in>set [(0, 0), (1 :: nat, 1 :: nat)]. \<not> isl (process_frame ?gw 0.5 (fst t) (snd t))"
    by (simp add: process_frame_def dict_get_def)
  show ?thesis
    using prediction_keys
            [where as_completed = rev and gateway = ?gw and conf_threshold = "0.5",
             OF frame_interval_1_1 r m ok]
    by auto
qed

text \<open>Two frames whose tasks complete in reverse: the dictionary lists \<^verbatim>\<open>frame_1\<close>
  before \<^verbatim>\<open>frame_0\<close>.\<close>

theorem prediction_order_counterexample:
  "process_video True 1 [0, 1 :: nat] (\<lambda>f. Inr []) 0.5 1 rev
     = Inr [(''frame_1'', []), (''frame_0'', [])]
   \<and> process_video True 1 [0, 1 :: nat] (\<lambda>f. Inr []) 0.5 1 rev
     \<noteq> Inr [(''frame_0'', []), (''frame_1'', [])]"
proof -
  have k: "frame_key 0 = ''frame_0''" "frame_key (Suc 0) = ''frame_1''" by code_simp+
  show ?thesis
    by (simp add: process_video_def frame_interval_1_1 process_frame_def k)
qed

end
